theory Spec2Isabelle
  imports Complex_Main "HOL-Library.AList"
begin

section \<open>Decision engine: \<open>src/integration/toll_system.py\<close>\<close>

subsection \<open>Strings\<close>

text \<open>
  Python's \<open>str.upper\<close> and \<open>str.strip\<close>, on ASCII text: plate strings produced by the
  recognizer consist of the characters A-Z and 0-9, and the allow-list file is a text
  file with one plate per line.
\<close>

definition char_upper :: "char \<Rightarrow> char" where
  "char_upper c =
     (let n = (of_char c :: nat) in if 97 \<le> n \<and> n \<le> 122 then char_of (n - 32) else c)"

definition upper :: "string \<Rightarrow> string" where
  "upper s = map char_upper s"

definition is_space :: "char \<Rightarrow> bool" where
  "is_space c = ((of_char c :: nat) \<in> {9, 10, 11, 12, 13, 28, 29, 30, 31, 32})"

definition strip :: "string \<Rightarrow> string" where
  "strip s = rev (dropWhile is_space (rev (dropWhile is_space s)))"

subsection \<open>Data\<close>

text \<open>
  A plate as \<open>detect_and_recognize\<close> builds it: a dict that always has the keys
  \<open>'text'\<close>, \<open>'confidence'\<close> and \<open>'bbox'\<close> (the contour is image data and is left out).
\<close>

record plate =
  plate_str :: string
  plate_confidence :: real
  plate_bbox :: "int \<times> int \<times> int \<times> int"

text \<open>
  The drowsiness status dict. The decision code reads it with \<open>.get(key, False)\<close>, so
  a key may be absent: \<open>None\<close> is the absent key.
\<close>

record drowsiness_status =
  drowsy :: "bool option"
  yawning :: "bool option"
  face_detected :: "bool option"

definition get_flag :: "bool option \<Rightarrow> bool" where
  "get_flag v = (case v of None \<Rightarrow> False | Some b \<Rightarrow> b)"

datatype decision =
  PENDING | NO_PLATE_DETECTED | ACCESS_DENIED | SAFETY_VIOLATION | ACCESS_GRANTED | ERROR

text \<open>
  The allow-list file as \<open>verify_authorized_plate\<close> finds it: absent, present but
  raising on open or read, or present with its lines.
\<close>

datatype auth_store = StoreMissing | StoreUnreadable | StoreLines "string list"

record session =
  plate_detected :: bool
  plate_text :: string
  is_authorized :: bool
  driver_safe :: bool
  violation_count :: int
  session_start :: "nat option"

text \<open>
  One entry of the violation log. The source also stores \<open>id(self.current_session)\<close>,
  an object identity that no operation reads back; it is left out.
\<close>

record violation_entry =
  timestamp :: nat
  violation_type :: string
  plate :: string

text \<open>
  The system: the session, what the two files it touches hold, and the clock that
  \<open>datetime.now()\<close> reads. \<open>log_writable\<close> says whether opening the violation log for
  append succeeds.
\<close>

record toll_system =
  current_session :: session
  store :: auth_store
  violation_log :: "violation_entry list"
  log_writable :: bool
  clock :: nat

definition initial_session :: session where
  "initial_session =
     \<lparr>plate_detected = False, plate_text = [], is_authorized = False, driver_safe = True,
      violation_count = 0, session_start = None\<rparr>"

subsection \<open>Operations\<close>

text \<open>
  \<open>LicensePlateRecognizer.verify_authorized_plate\<close>: every exception is caught inside
  and turned into \<open>False\<close>.
\<close>

definition verify_authorized_plate :: "auth_store \<Rightarrow> string \<Rightarrow> bool" where
  "verify_authorized_plate st txt =
     (case st of
        StoreLines ls \<Rightarrow> upper txt \<in> set (map (\<lambda>l. upper (strip l)) ls)
      | StoreMissing \<Rightarrow> False
      | StoreUnreadable \<Rightarrow> False)"

text \<open>
  \<open>log_violation\<close>: appends one entry to the log file; a failure to write is caught
  and only reported to the logger.
\<close>

definition log_violation :: "toll_system \<Rightarrow> string \<Rightarrow> string \<Rightarrow> toll_system" where
  "log_violation sys vtype txt =
     (if log_writable sys
      then sys\<lparr>violation_log := violation_log sys @
             [\<lparr>timestamp = clock sys, violation_type = vtype, plate = txt\<rparr>]\<rparr>
      else sys)"

text \<open>The \<open>for plate in plates: if verify(...): found = True; break\<close> loop.\<close>

fun authorized_plate_found :: "auth_store \<Rightarrow> plate list \<Rightarrow> bool" where
  "authorized_plate_found st [] = False"
| "authorized_plate_found st (p # ps) =
     (if verify_authorized_plate st (plate_str p) then True else authorized_plate_found st ps)"

fun make_toll_decision ::
  "toll_system \<Rightarrow> plate list \<Rightarrow> drowsiness_status \<Rightarrow> decision \<times> toll_system" where
  "make_toll_decision sys [] status = (NO_PLATE_DETECTED, sys)"
| "make_toll_decision sys (p0 # ps) status =
     (if \<not> authorized_plate_found (store sys) (p0 # ps)
      then (ACCESS_DENIED, log_violation sys ''UNAUTHORIZED_PLATE'' (plate_str p0))
      else if get_flag (drowsy status) \<or> get_flag (yawning status)
      then (SAFETY_VIOLATION, log_violation sys ''UNSAFE_DRIVER'' (plate_str p0))
      else (ACCESS_GRANTED, sys))"

definition update_session_state ::
  "toll_system \<Rightarrow> plate list \<Rightarrow> drowsiness_status \<Rightarrow> toll_system" where
  "update_session_state sys plates status =
     (let s0 = current_session sys;
          s1 = (case plates of
                  [] \<Rightarrow> s0
                | p0 # _ \<Rightarrow> s0\<lparr>plate_detected := True, plate_text := plate_str p0,
                              is_authorized := verify_authorized_plate (store sys) (plate_str p0)\<rparr>);
          s2 = s1\<lparr>driver_safe := \<not> (get_flag (drowsy status) \<or> get_flag (yawning status))\<rparr>;
          s3 = (if \<not> driver_safe s2 then s2\<lparr>violation_count := violation_count s2 + 1\<rparr> else s2)
      in sys\<lparr>current_session := s3\<rparr>)"

text \<open>
  \<open>process_frame\<close>, from the point where the two detectors are called. \<open>None\<close> is
  a detector that raised: the exception is caught, the decision is \<open>ERROR\<close> and the
  session is not touched. Otherwise the decision is made (step 3) and then the session
  is updated (step 4); \<open>draw_system_status\<close> catches its own exceptions and changes
  nothing of the state. The spec calls steps 3 and 4 together \<open>evaluate\<close>.
\<close>

definition process_frame ::
  "toll_system \<Rightarrow> (plate list \<times> drowsiness_status) option \<Rightarrow> decision \<times> toll_system" where
  "process_frame sys inp =
     (case inp of
        None \<Rightarrow> (ERROR, sys)
      | Some (plates, status) \<Rightarrow>
          (let (d, sys1) = make_toll_decision sys plates status
           in (d, update_session_state sys1 plates status)))"

text \<open>The session that the \<open>'r'\<close> key installs.\<close>

definition reset_session :: "toll_system \<Rightarrow> toll_system" where
  "reset_session sys = sys\<lparr>current_session := initial_session\<lparr>session_start := Some (clock sys)\<rparr>\<rparr>"

section \<open>Centroid tracker: \<open>src/license_plate/plate_tracker.py\<close>\<close>

subsection \<open>Data\<close>

text \<open>
  A detection as \<open>update\<close> reads it: \<open>detection['bbox']\<close> is always there,
  \<open>detection.get('text', '')\<close> may find no key (\<open>None\<close>). Bounding boxes are pixel
  rectangles \<open>(x, y, w, h)\<close> of integers, as \<open>cv2.boundingRect\<close> gives them.
\<close>

record detection =
  bbox :: "int \<times> int \<times> int \<times> int"
  det_text :: "string option"
  confidence :: real

text \<open>The dict that \<open>register\<close> stores for an object; the two deques are lists.\<close>

record tracked_object =
  centroid :: "int \<times> int"
  obj_plate_text :: string
  track_history :: "(int \<times> int) list"
  confidence_history :: "real list"

text \<open>
  The tracker. Its two dicts are association lists in insertion order, which is the
  order in which Python iterates over \<open>keys()\<close> and \<open>values()\<close>. The two parameters
  are integers, as their defaults 30 and 100 are.
\<close>

record plate_tracker =
  next_object_id :: nat
  objects :: "(nat \<times> tracked_object) list"
  disappeared :: "(nat \<times> int) list"
  max_disappeared :: int
  max_distance :: int

datatype error = KeyError

definition new_tracker :: "int \<Rightarrow> int \<Rightarrow> plate_tracker" where
  "new_tracker md mdist =
     \<lparr>next_object_id = 0, objects = [], disappeared = [], max_disappeared = md,
      max_distance = mdist\<rparr>"

subsection \<open>Operations\<close>

text \<open>
  \<open>int(x + w / 2.0)\<close> for integers \<open>x\<close> and \<open>w\<close>: the exact half-integer
  \<open>(2 x + w) / 2\<close>, truncated towards zero. (The float sum is exact for pixel
  coordinates; it would round only beyond \<open>2 ^ 52\<close>.)
\<close>

definition int_half_sum :: "int \<Rightarrow> int \<Rightarrow> int" where
  "int_half_sum x w = (let s = 2 * x + w in if 0 \<le> s then s div 2 else - ((- s) div 2))"

definition centroid_of :: "int \<times> int \<times> int \<times> int \<Rightarrow> int \<times> int" where
  "centroid_of b = (case b of (x, y, w, h) \<Rightarrow> (int_half_sum x w, int_half_sum y h))"

definition input_centroids :: "detection list \<Rightarrow> (int \<times> int) list" where
  "input_centroids dets = map (\<lambda>d. centroid_of (bbox d)) dets"

definition plate_texts :: "detection list \<Rightarrow> string list" where
  "plate_texts dets = map (\<lambda>d. case det_text d of None \<Rightarrow> [] | Some s \<Rightarrow> s) dets"

text \<open>\<open>deque(maxlen=n).append\<close>: the oldest element leaves when the deque is full.\<close>

definition deque_append :: "nat \<Rightarrow> 'a list \<Rightarrow> 'a \<Rightarrow> 'a list" where
  "deque_append n xs x = (let ys = xs @ [x] in drop (length ys - n) ys)"

definition register :: "plate_tracker \<Rightarrow> int \<times> int \<Rightarrow> string \<Rightarrow> plate_tracker" where
  "register t c txt =
     t\<lparr>objects := AList.update (next_object_id t)
                     \<lparr>centroid = c, obj_plate_text = txt, track_history = [],
                      confidence_history = []\<rparr> (objects t),
       disappeared := AList.update (next_object_id t) 0 (disappeared t),
       next_object_id := next_object_id t + 1\<rparr>"

text \<open>\<open>del d[k]\<close> raises \<open>KeyError\<close> when the key is absent.\<close>

definition deregister :: "plate_tracker \<Rightarrow> nat \<Rightarrow> error + plate_tracker" where
  "deregister t oid =
     (if map_of (objects t) oid = None then Inl KeyError
      else if map_of (disappeared t) oid = None then Inl KeyError
      else Inr (t\<lparr>objects := AList.delete oid (objects t),
                  disappeared := AList.delete oid (disappeared t)\<rparr>))"

text \<open>
  The loop of the branch for an empty detection list, over the snapshot
  \<open>list(self.disappeared.keys())\<close>.
\<close>

fun age_loop :: "nat list \<Rightarrow> plate_tracker \<Rightarrow> error + plate_tracker" where
  "age_loop [] t = Inr t"
| "age_loop (oid # oids) t =
     (case map_of (disappeared t) oid of
        None \<Rightarrow> Inl KeyError
      | Some d \<Rightarrow>
          (let t1 = t\<lparr>disappeared := AList.update oid (d + 1) (disappeared t)\<rparr>
           in if d + 1 > max_disappeared t1
              then (case deregister t1 oid of Inl e \<Rightarrow> Inl e | Inr t2 \<Rightarrow> age_loop oids t2)
              else age_loop oids t1))"

text \<open>The loop of the branch for a tracker without objects.\<close>

fun register_all :: "((int \<times> int) \<times> string) list \<Rightarrow> plate_tracker \<Rightarrow> plate_tracker" where
  "register_all [] t = t"
| "register_all ((c, txt) # rest) t = register_all rest (register t c txt)"

text \<open>
  The distance matrix. \<open>np.linalg.norm\<close> gives the Euclidean distance
  \<open>sqrt (dx\<^sup>2 + dy\<^sup>2)\<close>; the model keeps the integer under the root. The code only
  compares distances with each other (\<open>min\<close>, \<open>argmin\<close>, \<open>argsort\<close>) and with
  \<open>max_distance\<close>, and the root is strictly increasing, so every comparison is decided
  on the squares; \<open>exceeds\<close> is the test \<open>D[row, col] > self.max_distance\<close>.

  The code computes in machine numbers: numpy subtracts the centroids as 64-bit
  integers and takes the norm in 64-bit floating point. The integers here are exact,
  so \<open>dist2\<close> and \<open>exceeds\<close> are what the code computes only while no difference
  wraps and no square, sum or root is rounded out of order. \<open>in_range\<close> below is a
  range on which that holds; statements about distances carry it as a hypothesis.
\<close>

definition dist2 :: "int \<times> int \<Rightarrow> int \<times> int \<Rightarrow> int" where
  "dist2 a b = (fst a - fst b) * (fst a - fst b) + (snd a - snd b) * (snd a - snd b)"

definition distance_matrix :: "(int \<times> int) list \<Rightarrow> (int \<times> int) list \<Rightarrow> int list list" where
  "distance_matrix ocs ics = map (\<lambda>oc. map (\<lambda>ic. dist2 oc ic) ics) ocs"

definition exceeds :: "int \<Rightarrow> int \<Rightarrow> bool" where
  "exceeds d2 m = (m < 0 \<or> m * m < d2)"

text \<open>
  The range of the integer model. Centroids lie in a frame of side \<open>2 ^ 24\<close>, so a
  difference is below \<open>2 ^ 24\<close> in absolute value and a squared distance below
  \<open>2 ^ 49\<close>: nothing wraps and every integer is a float exactly. A threshold below
  \<open>2 ^ 53\<close> in absolute value is a float exactly too, and the correctly rounded root
  of an integer \<open>n < 2 ^ 52\<close> is greater than such a threshold \<open>m\<close> exactly when
  \<open>m < 0\<close> or \<open>m\<^sup>2 < n\<close>. Bounding boxes inside the frame have their centroid,
  \<open>int(x + w / 2.0)\<close>, inside it.
\<close>

definition in_frame :: "int \<times> int \<Rightarrow> bool" where
  "in_frame c = (0 \<le> fst c \<and> fst c < 2 ^ 24 \<and> 0 \<le> snd c \<and> snd c < 2 ^ 24)"

definition bbox_in_frame :: "int \<times> int \<times> int \<times> int \<Rightarrow> bool" where
  "bbox_in_frame b =
     (case b of (x, y, w, h) \<Rightarrow>
        0 \<le> x \<and> 0 \<le> y \<and> 0 \<le> w \<and> 0 \<le> h \<and> x + w < 2 ^ 24 \<and> y + h < 2 ^ 24)"

definition in_range :: "plate_tracker \<Rightarrow> detection list \<Rightarrow> bool" where
  "in_range t detections =
     (list_all (\<lambda>kv. in_frame (centroid (snd kv))) (objects t) \<and>
      list_all (\<lambda>d. bbox_in_frame (bbox d)) detections \<and>
      \<bar>max_distance t\<bar> < 2 ^ 53)"

definition list_min :: "int list \<Rightarrow> int" where
  "list_min xs = fold min (tl xs) (hd xs)"

text \<open>\<open>argmin\<close>: the index of the first occurrence of the minimum.\<close>

definition argmin :: "int list \<Rightarrow> nat" where
  "argmin xs = length (takeWhile (\<lambda>x. x \<noteq> list_min xs) xs)"

text \<open>
  \<open>D.min(axis=1).argsort()\<close>: the row indices in ascending order of the row minimum.
  Rows with equal minima are kept in index order here (what numpy's sort does on short
  arrays); none of the theorems below depends on the order among equal minima.
\<close>

definition argsort :: "int list \<Rightarrow> nat list" where
  "argsort ks = sort_key (\<lambda>i. ks ! i) [0..<length ks]"

text \<open>
  The state of the assignment loop: the two sets of used indices and the tracker,
  together with the list of the pairs \<open>(row, col)\<close> the loop has committed so far. The
  source does not keep that list; it is recorded here so that the matching can be
  spoken about, and nothing reads it.
\<close>

record assign_state =
  used_row_indices :: "nat set"
  used_col_indices :: "nat set"
  tracker :: plate_tracker
  committed :: "(nat \<times> nat) list"

text \<open>
  The body of the loop after the two \<open>continue\<close> tests, lines 71 to 79. First what it
  does to the object's dict: the centroid is replaced and appended to the history, the
  plate text is replaced when the detection's text is truthy, that is, not empty.
\<close>

definition matched_object :: "tracked_object \<Rightarrow> int \<times> int \<Rightarrow> string \<Rightarrow> tracked_object" where
  "matched_object obj c txt =
     (let obj1 = obj\<lparr>centroid := c\<rparr>;
          obj2 = obj1\<lparr>track_history := deque_append 10 (track_history obj1) c\<rparr>
      in if txt \<noteq> [] then obj2\<lparr>obj_plate_text := txt\<rparr> else obj2)"

definition commit_match ::
  "nat list \<Rightarrow> (int \<times> int) list \<Rightarrow> string list \<Rightarrow> nat \<Rightarrow> nat \<Rightarrow> assign_state \<Rightarrow>
   error + assign_state" where
  "commit_match object_ids ics pts row col s =
     (let t = tracker s; object_id = object_ids ! row
      in case map_of (objects t) object_id of
           None \<Rightarrow> Inl KeyError
         | Some obj \<Rightarrow>
             (let t1 = t\<lparr>objects := AList.update object_id
                                      (matched_object obj (ics ! col) (pts ! col)) (objects t),
                         disappeared := AList.update object_id 0 (disappeared t)\<rparr>
              in Inr (s\<lparr>used_row_indices := insert row (used_row_indices s),
                        used_col_indices := insert col (used_col_indices s),
                        tracker := t1,
                        committed := committed s @ [(row, col)]\<rparr>)))"

fun assign_loop ::
  "int list list \<Rightarrow> nat list \<Rightarrow> (int \<times> int) list \<Rightarrow> string list \<Rightarrow> (nat \<times> nat) list \<Rightarrow>
   assign_state \<Rightarrow> error + assign_state" where
  "assign_loop D object_ids ics pts [] s = Inr s"
| "assign_loop D object_ids ics pts ((row, col) # rest) s =
     (if row \<in> used_row_indices s \<or> col \<in> used_col_indices s
      then assign_loop D object_ids ics pts rest s
      else if exceeds (D ! row ! col) (max_distance (tracker s))
      then assign_loop D object_ids ics pts rest s
      else (case commit_match object_ids ics pts row col s of
              Inl e \<Rightarrow> Inl e
            | Inr s1 \<Rightarrow> assign_loop D object_ids ics pts rest s1))"

text \<open>
  The pairs the loop walks, \<open>zip(rows, cols)\<close>: the rows by ascending row minimum, each
  with the column of its minimum.
\<close>

definition candidate_pairs :: "int list list \<Rightarrow> (nat \<times> nat) list" where
  "candidate_pairs D =
     (let rows = argsort (map list_min D);
          cols = map (\<lambda>r. argmin (D ! r)) rows
      in zip rows cols)"

text \<open>
  \<open>update\<close>, returning the tracker and the pairs committed in this cycle (none outside
  the assignment branch).
\<close>

definition update_trace ::
  "plate_tracker \<Rightarrow> detection list \<Rightarrow> error + (plate_tracker \<times> (nat \<times> nat) list)" where
  "update_trace t detections =
     (if length detections = 0
      then (case age_loop (map fst (disappeared t)) t of
              Inl e \<Rightarrow> Inl e
            | Inr t1 \<Rightarrow> Inr (t1, []))
      else
        (let ics = input_centroids detections;
             pts = plate_texts detections
         in if length (objects t) = 0
            then Inr (register_all (zip ics pts) t, [])
            else
              (let object_centroids = map (\<lambda>kv. centroid (snd kv)) (objects t);
                   object_ids = map fst (objects t);
                   D = distance_matrix object_centroids ics
               in case assign_loop D object_ids ics pts (candidate_pairs D)
                         \<lparr>used_row_indices = {}, used_col_indices = {}, tracker = t,
                          committed = []\<rparr> of
                    Inl e \<Rightarrow> Inl e
                  | Inr s \<Rightarrow> Inr (tracker s, committed s))))"

definition update :: "plate_tracker \<Rightarrow> detection list \<Rightarrow> error + plate_tracker" where
  "update t detections =
     (case update_trace t detections of Inl e \<Rightarrow> Inl e | Inr (t1, ms) \<Rightarrow> Inr t1)"

text \<open>
  What every tracker built by \<open>__init__\<close>, \<open>register\<close>, \<open>deregister\<close> and \<open>update\<close>
  satisfies: the two dicts have the same keys in the same order, no key twice, and all
  keys lie below \<open>next_object_id\<close>.
\<close>

definition tracker_ok :: "plate_tracker \<Rightarrow> bool" where
  "tracker_ok t =
     (map fst (disappeared t) = map fst (objects t) \<and> distinct (map fst (objects t)) \<and>
      list_all (\<lambda>k. k < next_object_id t) (map fst (objects t)))"

subsection \<open>Relations between the states of a cycle\<close>

text \<open>
  \<open>aged t ks t'\<close>: \<open>t'\<close> is \<open>t\<close> after the ageing loop has visited the keys \<open>ks\<close>. A
  visited key has left both dicts when its incremented counter exceeds
  \<open>max_disappeared\<close>, and has the incremented counter otherwise.
\<close>

definition aged :: "plate_tracker \<Rightarrow> nat set \<Rightarrow> plate_tracker \<Rightarrow> bool" where
  "aged t ks t' =
     (tracker_ok t' \<and> max_disappeared t' = max_disappeared t \<and>
      max_distance t' = max_distance t \<and> next_object_id t' = next_object_id t \<and>
      (\<forall>k. map_of (disappeared t') k =
         (if k \<in> ks
          then (case map_of (disappeared t) k of
                  None \<Rightarrow> None
                | Some d \<Rightarrow> if d + 1 > max_disappeared t then None else Some (d + 1))
          else map_of (disappeared t) k)) \<and>
      (\<forall>k. map_of (objects t') k =
         (if k \<in> ks \<and> (\<exists>d. map_of (disappeared t) k = Some d \<and> d + 1 > max_disappeared t)
          then None else map_of (objects t) k)))"

text \<open>
  \<open>loop_trace D rcs s s' new\<close>: the assignment loop went from \<open>s\<close> to \<open>s'\<close> over the
  pairs \<open>rcs\<close> and committed the pairs \<open>new\<close>.
\<close>

definition loop_trace ::
  "int list list \<Rightarrow> (nat \<times> nat) list \<Rightarrow> assign_state \<Rightarrow> assign_state \<Rightarrow> (nat \<times> nat) list \<Rightarrow> bool"
  where
  "loop_trace D rcs s s' new =
     (committed s' = committed s @ new \<and> set new \<subseteq> set rcs \<and>
      used_row_indices s' = used_row_indices s \<union> fst ` set new \<and>
      used_col_indices s' = used_col_indices s \<union> snd ` set new \<and>
      distinct (map fst new) \<and> distinct (map snd new) \<and>
      fst ` set new \<inter> used_row_indices s = {} \<and>
      snd ` set new \<inter> used_col_indices s = {} \<and>
      (\<forall>rc \<in> set new. \<not> exceeds (D ! fst rc ! snd rc) (max_distance (tracker s))))"

text \<open>
  \<open>loop_effect\<close>: what the committed pairs \<open>new\<close> did to the two dicts between \<open>s\<close>
  and \<open>s'\<close>; keys of no committed row are untouched.
\<close>

definition loop_effect ::
  "nat list \<Rightarrow> (int \<times> int) list \<Rightarrow> string list \<Rightarrow> assign_state \<Rightarrow> assign_state \<Rightarrow>
   (nat \<times> nat) list \<Rightarrow> bool" where
  "loop_effect oids ics pts s s' new =
     ((\<forall>k. k \<notin> (\<lambda>rc. oids ! fst rc) ` set new \<longrightarrow>
          map_of (objects (tracker s')) k = map_of (objects (tracker s)) k \<and>
          map_of (disappeared (tracker s')) k = map_of (disappeared (tracker s)) k) \<and>
      (\<forall>rc \<in> set new.
          map_of (objects (tracker s')) (oids ! fst rc) =
            map_option (\<lambda>obj. matched_object obj (ics ! snd rc) (pts ! snd rc))
              (map_of (objects (tracker s)) (oids ! fst rc)) \<and>
          map_of (disappeared (tracker s')) (oids ! fst rc) = Some 0))"

section \<open>Concrete inputs\<close>

text \<open>A system with a two-line allow-list, three plates and two safety readings.\<close>

definition demo_system :: toll_system where
  "demo_system = \<lparr>current_session = initial_session, store = StoreLines [''AB1234 '', ''xy0001''],
           violation_log = [], log_writable = True, clock = 7\<rparr>"
definition demo_plate :: "string \<Rightarrow> plate" where
  "demo_plate s = \<lparr>plate_str = s, plate_confidence = 0.9, plate_bbox = (50, 50, 200, 60)\<rparr>"
definition alert_status :: drowsiness_status where
  "alert_status = \<lparr>drowsy = Some False, yawning = Some False, face_detected = Some True\<rparr>"
definition drowsy_status :: drowsiness_status where
  "drowsy_status = \<lparr>drowsy = Some True, yawning = Some False, face_detected = Some True\<rparr>"


text \<open>
  A tracker with two objects, one of them at the disappearance threshold, and
  detections to feed it.
\<close>

definition demo_object :: "int \<times> int \<Rightarrow> string \<Rightarrow> tracked_object" where
  "demo_object c txt =
     \<lparr>centroid = c, obj_plate_text = txt, track_history = [], confidence_history = []\<rparr>"

definition demo_tracker :: plate_tracker where
  "demo_tracker =
     \<lparr>next_object_id = 2,
      objects = [(0, demo_object (0, 0) ''AB1234''), (1, demo_object (50, 50) ''XY0001'')],
      disappeared = [(0, 30), (1, 29)], max_disappeared = 30, max_distance = 100\<rparr>"

text \<open>A tracker whose only object has a full history of ten centroids.\<close>

definition history_tracker :: plate_tracker where
  "history_tracker =
     \<lparr>next_object_id = 1,
      objects =
        [(0, \<lparr>centroid = (10, 10), obj_plate_text = ''AB1234'',
               track_history =
                 [(1, 1), (2, 2), (3, 3), (4, 4), (5, 5), (6, 6), (7, 7), (8, 8), (9, 9),
                  (10, 10)],
               confidence_history = []\<rparr>)],
      disappeared = [(0, 3)], max_disappeared = 30, max_distance = 100\<rparr>"

definition demo_detection :: "int \<times> int \<times> int \<times> int \<Rightarrow> string option \<Rightarrow> detection" where
  "demo_detection b txt = \<lparr>bbox = b, det_text = txt, confidence = 0.9\<rparr>"

section \<open>Properties of the decision engine\<close>

lemma demo_verify:
  "verify_authorized_plate (StoreLines [''AB1234 '', ''xy0001'']) ''AB1234''"
  "verify_authorized_plate (StoreLines [''AB1234 '', ''xy0001'']) ''ab1234''"
  "verify_authorized_plate (StoreLines [''AB1234 '', ''xy0001'']) ''xy0001''"
  "\<not> verify_authorized_plate (StoreLines [''AB1234 '', ''xy0001'']) ''ZZ9999''"
  "\<not> verify_authorized_plate (StoreLines [''AB1234 '', ''xy0001'']) ''XX0000''"
  by code_simp+

lemma authorized_plate_found_iff:
  "authorized_plate_found st ps = (\<exists>p \<in> set ps. verify_authorized_plate st (plate_str p))"
  by (induction ps) auto

lemma verify_unreadable: "\<not> verify_authorized_plate StoreUnreadable txt"
  by (simp add: verify_authorized_plate_def)

lemma log_violation_fields:
  "current_session (log_violation sys v txt) = current_session sys"
  "store (log_violation sys v txt) = store sys"
  by (simp_all add: log_violation_def)

lemma make_toll_decision_fields:
  "current_session (snd (make_toll_decision sys plates status)) = current_session sys"
  "store (snd (make_toll_decision sys plates status)) = store sys"
  by (cases plates; simp add: log_violation_fields)+

lemma update_session_state_log:
  "violation_log (update_session_state sys plates status) = violation_log sys"
  by (simp add: update_session_state_def Let_def)

lemma process_frame_Some:
  "process_frame sys (Some (plates, status)) =
     (fst (make_toll_decision sys plates status),
      update_session_state (snd (make_toll_decision sys plates status)) plates status)"
  by (simp add: process_frame_def split: prod.splits)

lemma violation_count_update:
  "violation_count (current_session (update_session_state sys plates status)) =
     violation_count (current_session sys) +
       (if get_flag (drowsy status) \<or> get_flag (yawning status) then 1 else 0)"
  by (cases plates) (simp_all add: update_session_state_def Let_def)

lemma driver_safe_update:
  "driver_safe (current_session (update_session_state sys plates status)) =
     (\<not> (get_flag (drowsy status) \<or> get_flag (yawning status)))"
  by (cases plates) (simp_all add: update_session_state_def Let_def)

lemma is_authorized_update:
  "is_authorized (current_session (update_session_state sys (p0 # ps) status)) =
     verify_authorized_plate (store sys) (plate_str p0)"
  by (simp add: update_session_state_def Let_def)

text \<open>
  Claim C7. A cycle whose first plate is authorized and whose safety status has neither
  \<open>drowsy\<close> nor \<open>yawning\<close> set returns \<open>ACCESS_GRANTED\<close>, sets \<open>driver_safe\<close> to true
  and leaves \<open>violation_count\<close> (and the violation log) unchanged.
\<close>

theorem authorized_safe_granted:
  assumes "verify_authorized_plate (store sys) (plate_str p0)"
    and "\<not> get_flag (drowsy status)" and "\<not> get_flag (yawning status)"
  shows "fst (process_frame sys (Some (p0 # ps, status))) = ACCESS_GRANTED \<and>
         driver_safe (current_session (snd (process_frame sys (Some (p0 # ps, status))))) \<and>
         violation_count (current_session (snd (process_frame sys (Some (p0 # ps, status))))) =
           violation_count (current_session sys) \<and>
         violation_log (snd (process_frame sys (Some (p0 # ps, status)))) = violation_log sys"
  using assms
  by (simp add: process_frame_Some violation_count_update driver_safe_update update_session_state_log)

text \<open>C7 at a lower-case spelling of an allow-listed plate and an alert driver.\<close>

theorem authorized_safe_granted_witness:
  "verify_authorized_plate (store demo_system) (plate_str (demo_plate ''ab1234'')) \<and>
   \<not> get_flag (drowsy alert_status) \<and> \<not> get_flag (yawning alert_status) \<and>
   fst (process_frame demo_system (Some ([demo_plate ''ab1234''], alert_status))) = ACCESS_GRANTED \<and>
   violation_count (current_session (snd (process_frame demo_system (Some ([demo_plate ''ab1234''], alert_status))))) = 0"
proof -
  have a: "verify_authorized_plate (store demo_system) (plate_str (demo_plate ''ab1234''))"
    by (simp add: demo_system_def demo_plate_def demo_verify)
  have b: "\<not> get_flag (drowsy alert_status)" "\<not> get_flag (yawning alert_status)"
    by (simp_all add: alert_status_def get_flag_def)
  from authorized_safe_granted [OF a b, of "[]"] a b show ?thesis
    by (simp add: demo_system_def initial_session_def)
qed

text \<open>
  Claim C10. When the safety status has \<open>drowsy\<close> or \<open>yawning\<close> set, the session update
  increments \<open>violation_count\<close> by exactly 1 and sets \<open>driver_safe\<close> to false, whatever
  the plates and their authorization are; this also holds in cycles whose decision is
  \<open>NO_PLATE_DETECTED\<close> or \<open>ACCESS_DENIED\<close>.
\<close>

theorem unsafe_status_counts_violation:
  assumes "get_flag (drowsy status) \<or> get_flag (yawning status)"
  shows "violation_count (current_session (update_session_state sys plates status)) =
           violation_count (current_session sys) + 1 \<and>
         \<not> driver_safe (current_session (update_session_state sys plates status)) \<and>
         violation_count (current_session (snd (process_frame sys (Some (plates, status))))) =
           violation_count (current_session sys) + 1 \<and>
         \<not> driver_safe (current_session (snd (process_frame sys (Some (plates, status))))) \<and>
         (plates = [] \<longrightarrow> fst (process_frame sys (Some (plates, status))) = NO_PLATE_DETECTED) \<and>
         (plates \<noteq> [] \<and> \<not> authorized_plate_found (store sys) plates \<longrightarrow>
            fst (process_frame sys (Some (plates, status))) = ACCESS_DENIED)"
proof -
  have upd: "violation_count (current_session (update_session_state sys plates status)) =
               violation_count (current_session sys) + 1"
            "\<not> driver_safe (current_session (update_session_state sys plates status))"
    using assms by (simp_all add: violation_count_update driver_safe_update)
  have cyc: "violation_count (current_session (snd (process_frame sys (Some (plates, status))))) =
               violation_count (current_session sys) + 1"
            "\<not> driver_safe (current_session (snd (process_frame sys (Some (plates, status)))))"
    using assms
    by (simp_all add: process_frame_Some violation_count_update driver_safe_update
          make_toll_decision_fields del: make_toll_decision.simps)
  have dec: "plates = [] \<longrightarrow> fst (process_frame sys (Some (plates, status))) = NO_PLATE_DETECTED"
            "plates \<noteq> [] \<and> \<not> authorized_plate_found (store sys) plates \<longrightarrow>
               fst (process_frame sys (Some (plates, status))) = ACCESS_DENIED"
    by (cases plates; simp add: process_frame_Some)+
  from upd cyc dec show ?thesis by blast
qed

text \<open>C10 at a drowsy driver, once without a plate and once with an unknown plate.\<close>

theorem unsafe_status_counts_violation_witness:
  "(get_flag (drowsy drowsy_status) \<or> get_flag (yawning drowsy_status)) \<and>
   fst (process_frame demo_system (Some ([], drowsy_status))) = NO_PLATE_DETECTED \<and>
   violation_count (current_session (snd (process_frame demo_system (Some ([], drowsy_status))))) = 1 \<and>
   fst (process_frame demo_system (Some ([demo_plate ''ZZ9999''], drowsy_status))) = ACCESS_DENIED \<and>
   violation_count (current_session
      (snd (process_frame demo_system (Some ([demo_plate ''ZZ9999''], drowsy_status))))) = 1"
proof -
  have a: "get_flag (drowsy drowsy_status) \<or> get_flag (yawning drowsy_status)"
    by (simp add: drowsy_status_def get_flag_def)
  have b: "\<not> authorized_plate_found (store demo_system) [demo_plate ''ZZ9999'']"
    by (simp add: demo_system_def demo_plate_def demo_verify)
  from unsafe_status_counts_violation [OF a, of demo_system "[]"] unsafe_status_counts_violation [OF a, of demo_system "[demo_plate ''ZZ9999'']"] a b
  show ?thesis
    by (simp add: demo_system_def initial_session_def)
qed


lemma unauthorized_cycle:
  assumes "\<not> authorized_plate_found (store sys) (p0 # ps)"
  shows "fst (process_frame sys (Some (p0 # ps, status))) = ACCESS_DENIED"
    and "violation_log (snd (process_frame sys (Some (p0 # ps, status)))) =
           violation_log sys @
             (if log_writable sys
              then [\<lparr>timestamp = clock sys, violation_type = ''UNAUTHORIZED_PLATE'',
                     plate = plate_str p0\<rparr>]
              else [])"
    and "\<not> is_authorized (current_session (snd (process_frame sys (Some (p0 # ps, status)))))"
    and "violation_count (current_session (snd (process_frame sys (Some (p0 # ps, status))))) =
           violation_count (current_session sys) +
             (if get_flag (drowsy status) \<or> get_flag (yawning status) then 1 else 0)"
proof -
  let ?r = "process_frame sys (Some (p0 # ps, status))"
  from assms show "fst ?r = ACCESS_DENIED"
    by (simp add: process_frame_Some)
  from assms show "violation_log (snd ?r) = violation_log sys @
             (if log_writable sys
              then [\<lparr>timestamp = clock sys, violation_type = ''UNAUTHORIZED_PLATE'',
                     plate = plate_str p0\<rparr>]
              else [])"
    by (simp add: process_frame_Some update_session_state_log log_violation_def)
  from assms have "\<not> verify_authorized_plate (store sys) (plate_str p0)"
    by (simp split: if_splits)
  then show "\<not> is_authorized (current_session (snd ?r))"
    by (simp add: process_frame_Some is_authorized_update make_toll_decision_fields
          del: make_toll_decision.simps)
  show "violation_count (current_session (snd ?r)) =
           violation_count (current_session sys) +
             (if get_flag (drowsy status) \<or> get_flag (yawning status) then 1 else 0)"
    by (simp add: process_frame_Some violation_count_update make_toll_decision_fields
          del: make_toll_decision.simps)
qed

text \<open>
  Claim C1, amended. A cycle with at least one plate in which no detected plate is
  authorized returns \<open>ACCESS_DENIED\<close> whatever the safety status is, appends exactly one
  \<open>UNAUTHORIZED_PLATE\<close> entry with the first plate's text to the violation log (none when
  the log cannot be written) and sets \<open>is_authorized\<close> to false; \<open>violation_count\<close>
  grows by 1 when \<open>drowsy\<close> or \<open>yawning\<close> is set and is unchanged otherwise.
\<close>

theorem unauthorized_cycle_denied:
  assumes "\<forall>p \<in> set (p0 # ps). \<not> verify_authorized_plate (store sys) (plate_str p)"
  shows "fst (process_frame sys (Some (p0 # ps, status))) = ACCESS_DENIED \<and>
         fst (process_frame sys (Some (p0 # ps, status'))) =
           fst (process_frame sys (Some (p0 # ps, status))) \<and>
         violation_log (snd (process_frame sys (Some (p0 # ps, status)))) =
           violation_log sys @
             (if log_writable sys
              then [\<lparr>timestamp = clock sys, violation_type = ''UNAUTHORIZED_PLATE'',
                     plate = plate_str p0\<rparr>]
              else []) \<and>
         \<not> is_authorized (current_session (snd (process_frame sys (Some (p0 # ps, status))))) \<and>
         violation_count (current_session (snd (process_frame sys (Some (p0 # ps, status))))) =
           violation_count (current_session sys) +
             (if get_flag (drowsy status) \<or> get_flag (yawning status) then 1 else 0)"
proof -
  from assms have n: "\<not> authorized_plate_found (store sys) (p0 # ps)"
    unfolding authorized_plate_found_iff by blast
  show ?thesis
    using unauthorized_cycle [OF n, of status] unauthorized_cycle(1) [OF n, of status']
    by simp
qed

text \<open>C1 (amended) at two unknown plates and a drowsy driver.\<close>

theorem unauthorized_cycle_denied_witness:
  "\<not> verify_authorized_plate (store demo_system) (plate_str (demo_plate ''ZZ9999'')) \<and>
   \<not> verify_authorized_plate (store demo_system) (plate_str (demo_plate ''XX0000'')) \<and>
   fst (process_frame demo_system
          (Some ([demo_plate ''ZZ9999'', demo_plate ''XX0000''], drowsy_status))) = ACCESS_DENIED \<and>
   violation_log (snd (process_frame demo_system
          (Some ([demo_plate ''ZZ9999'', demo_plate ''XX0000''], drowsy_status)))) =
     [\<lparr>timestamp = 7, violation_type = ''UNAUTHORIZED_PLATE'', plate = ''ZZ9999''\<rparr>] \<and>
   violation_count (current_session (snd (process_frame demo_system
          (Some ([demo_plate ''ZZ9999'', demo_plate ''XX0000''], drowsy_status))))) = 1"
proof -
  have a: "\<forall>p \<in> set [demo_plate ''ZZ9999'', demo_plate ''XX0000''].
             \<not> verify_authorized_plate (store demo_system) (plate_str p)"
    by (simp add: demo_system_def demo_plate_def demo_verify)
  have b: "get_flag (drowsy drowsy_status)"
    by (simp add: drowsy_status_def get_flag_def)
  from unauthorized_cycle_denied [OF a, of drowsy_status drowsy_status] a b show ?thesis
    by (simp add: demo_system_def demo_plate_def initial_session_def)
qed

text \<open>
  Claim C1 as stated fails. With one unknown plate and an alert driver the decision is
  \<open>ACCESS_DENIED\<close> but \<open>violation_count\<close> does not move; with an unknown first plate
  followed by an allow-listed one the decision is \<open>ACCESS_GRANTED\<close> and nothing is
  logged.
\<close>

theorem unauthorized_increment_counterexample:
  "\<not> verify_authorized_plate (store demo_system) (plate_str (demo_plate ''ZZ9999'')) \<and>
   fst (process_frame demo_system (Some ([demo_plate ''ZZ9999''], alert_status))) = ACCESS_DENIED \<and>
   violation_count (current_session
      (snd (process_frame demo_system (Some ([demo_plate ''ZZ9999''], alert_status))))) =
     violation_count (current_session demo_system) \<and>
   fst (process_frame demo_system
      (Some ([demo_plate ''ZZ9999'', demo_plate ''AB1234''], alert_status))) = ACCESS_GRANTED \<and>
   violation_log (snd (process_frame demo_system
      (Some ([demo_plate ''ZZ9999'', demo_plate ''AB1234''], alert_status)))) =
     violation_log demo_system"
  by (simp add: process_frame_Some update_session_state_def log_violation_def demo_system_def
        demo_plate_def alert_status_def get_flag_def initial_session_def demo_verify)

text \<open>
  Claim C3, amended. When the allow-list cannot be read, the lookup answers "not
  authorized": no cycle returns \<open>ERROR\<close>, a cycle with at least one plate returns
  \<open>ACCESS_DENIED\<close>, appends one \<open>UNAUTHORIZED_PLATE\<close> entry (none when the log cannot be
  written) and sets \<open>is_authorized\<close> to false; \<open>violation_count\<close> grows by 1 when
  \<open>drowsy\<close> or \<open>yawning\<close> is set and is unchanged otherwise.
\<close>

theorem unreadable_store_denied:
  assumes "store sys = StoreUnreadable"
  shows "fst (process_frame sys (Some (plates, status))) \<noteq> ERROR \<and>
         fst (process_frame sys (Some (p0 # ps, status))) = ACCESS_DENIED \<and>
         violation_log (snd (process_frame sys (Some (p0 # ps, status)))) =
           violation_log sys @
             (if log_writable sys
              then [\<lparr>timestamp = clock sys, violation_type = ''UNAUTHORIZED_PLATE'',
                     plate = plate_str p0\<rparr>]
              else []) \<and>
         \<not> is_authorized (current_session (snd (process_frame sys (Some (p0 # ps, status))))) \<and>
         violation_count (current_session (snd (process_frame sys (Some (p0 # ps, status))))) =
           violation_count (current_session sys) +
             (if get_flag (drowsy status) \<or> get_flag (yawning status) then 1 else 0)"
proof -
  from assms have n: "\<not> authorized_plate_found (store sys) (p0 # ps)"
    by (simp add: authorized_plate_found_iff verify_unreadable del: authorized_plate_found.simps)
  have "fst (process_frame sys (Some (plates, status))) \<noteq> ERROR"
    by (cases plates) (simp_all add: process_frame_Some)
  with unauthorized_cycle [OF n, of status] show ?thesis
    by simp
qed

text \<open>C3 (amended) at an unreadable allow-list and a drowsy driver.\<close>

theorem unreadable_store_denied_witness:
  "store (demo_system\<lparr>store := StoreUnreadable\<rparr>) = StoreUnreadable \<and>
   fst (process_frame (demo_system\<lparr>store := StoreUnreadable\<rparr>)
          (Some ([demo_plate ''AB1234''], drowsy_status))) = ACCESS_DENIED \<and>
   violation_count (current_session (snd (process_frame (demo_system\<lparr>store := StoreUnreadable\<rparr>)
          (Some ([demo_plate ''AB1234''], drowsy_status))))) = 1"
proof -
  have a: "store (demo_system\<lparr>store := StoreUnreadable\<rparr>) = StoreUnreadable"
    by simp
  have b: "get_flag (drowsy drowsy_status)"
    by (simp add: drowsy_status_def get_flag_def)
  from unreadable_store_denied [OF a, of "[]" drowsy_status "demo_plate ''AB1234''" "[]"] a b show ?thesis
    by (simp add: demo_system_def initial_session_def)
qed

text \<open>
  Claim C3 as stated fails: with an unreadable allow-list the decision is
  \<open>ACCESS_DENIED\<close>, not \<open>ERROR\<close>, and a violation entry is appended.
\<close>

theorem unreadable_store_counterexample:
  "fst (process_frame (demo_system\<lparr>store := StoreUnreadable\<rparr>)
          (Some ([demo_plate ''AB1234''], alert_status))) = ACCESS_DENIED \<and>
   violation_log (snd (process_frame (demo_system\<lparr>store := StoreUnreadable\<rparr>)
          (Some ([demo_plate ''AB1234''], alert_status)))) =
     violation_log demo_system @
       [\<lparr>timestamp = 7, violation_type = ''UNAUTHORIZED_PLATE'', plate = ''AB1234''\<rparr>]"
  by (simp add: process_frame_Some update_session_state_def log_violation_def demo_system_def
        demo_plate_def alert_status_def get_flag_def initial_session_def verify_unreadable)

text \<open>
  Claim C4, amended. With at least one plate, the decision is \<open>ACCESS_DENIED\<close> when no
  detected plate is authorized and otherwise \<open>SAFETY_VIOLATION\<close> or \<open>ACCESS_GRANTED\<close>
  by the safety flags: it depends on whether any plate of the list is authorized. The
  first plate alone determines the session's \<open>plate_text\<close> and \<open>is_authorized\<close>.
\<close>

theorem decision_by_any_plate:
  "fst (process_frame sys (Some (p0 # ps, status))) =
     (if \<exists>p \<in> set (p0 # ps). verify_authorized_plate (store sys) (plate_str p)
      then (if get_flag (drowsy status) \<or> get_flag (yawning status)
            then SAFETY_VIOLATION else ACCESS_GRANTED)
      else ACCESS_DENIED) \<and>
   plate_text (current_session (snd (process_frame sys (Some (p0 # ps, status))))) = plate_str p0 \<and>
   is_authorized (current_session (snd (process_frame sys (Some (p0 # ps, status))))) =
     verify_authorized_plate (store sys) (plate_str p0)"
proof -
  have "fst (process_frame sys (Some (p0 # ps, status))) =
     (if authorized_plate_found (store sys) (p0 # ps)
      then (if get_flag (drowsy status) \<or> get_flag (yawning status)
            then SAFETY_VIOLATION else ACCESS_GRANTED)
      else ACCESS_DENIED)"
    by (simp add: process_frame_Some)
  moreover have "plate_text (current_session (snd (process_frame sys (Some (p0 # ps, status))))) =
                   plate_str p0"
    by (simp add: process_frame_Some update_session_state_def Let_def)
  moreover have "is_authorized (current_session (snd (process_frame sys (Some (p0 # ps, status))))) =
     verify_authorized_plate (store sys) (plate_str p0)"
    by (simp add: process_frame_Some is_authorized_update make_toll_decision_fields
          del: make_toll_decision.simps)
  ultimately show ?thesis
    unfolding authorized_plate_found_iff by simp
qed

text \<open>C4 (amended) at an unknown first plate followed by an allow-listed one.\<close>

theorem decision_by_any_plate_witness:
  "fst (process_frame demo_system
      (Some ([demo_plate ''ZZ9999'', demo_plate ''xy0001''], drowsy_status))) = SAFETY_VIOLATION \<and>
   \<not> is_authorized (current_session (snd (process_frame demo_system
      (Some ([demo_plate ''ZZ9999'', demo_plate ''xy0001''], drowsy_status)))))"
  using decision_by_any_plate [of demo_system "demo_plate ''ZZ9999''" "[demo_plate ''xy0001'']" drowsy_status]
  by (simp add: demo_system_def demo_plate_def drowsy_status_def get_flag_def demo_verify)

text \<open>
  Claim C4 as stated fails: two cycles with the same unauthorized first plate get
  different decisions, by the plate that follows it.
\<close>

theorem representative_counterexample:
  "fst (process_frame demo_system
      (Some ([demo_plate ''ZZ9999'', demo_plate ''AB1234''], alert_status))) = ACCESS_GRANTED \<and>
   fst (process_frame demo_system
      (Some ([demo_plate ''ZZ9999'', demo_plate ''XX0000''], alert_status))) = ACCESS_DENIED"
  by (simp add: process_frame_Some demo_system_def demo_plate_def alert_status_def get_flag_def
        demo_verify)

section \<open>Properties of the tracker\<close>

subsection \<open>The ageing loop\<close>

lemma keys_delete: "fst ` set (AList.delete k al) = fst ` set al - {k}"
  by (induction al) auto

lemma tracker_ok_update_disappeared:
  assumes "tracker_ok t" and "map_of (disappeared t) oid = Some d"
  shows "tracker_ok (t\<lparr>disappeared := AList.update oid v (disappeared t)\<rparr>)"
proof -
  from assms(2) have "oid \<in> fst ` set (disappeared t)"
    by (metis domI dom_map_of_conv_image_fst)
  then have "map fst (AList.update oid v (disappeared t)) = map fst (disappeared t)"
    by (simp add: update_keys)
  with assms(1) show ?thesis
    by (simp add: tracker_ok_def)
qed

lemma tracker_ok_deregister:
  assumes "tracker_ok t" and "map_of (disappeared t) oid = Some d"
  shows "\<exists>t2. deregister t oid = Inr t2 \<and> tracker_ok t2 \<and>
           objects t2 = AList.delete oid (objects t) \<and>
           disappeared t2 = AList.delete oid (disappeared t) \<and>
           max_disappeared t2 = max_disappeared t \<and> max_distance t2 = max_distance t \<and>
           next_object_id t2 = next_object_id t"
proof -
  from assms(2) have "oid \<in> fst ` set (disappeared t)"
    by (metis domI dom_map_of_conv_image_fst)
  with assms(1) have "oid \<in> fst ` set (objects t)"
    by (metis tracker_ok_def set_map)
  then have "map_of (objects t) oid \<noteq> None"
    by (metis domIff dom_map_of_conv_image_fst)
  moreover from assms(1)
  have "tracker_ok (t\<lparr>objects := AList.delete oid (objects t),
                      disappeared := AList.delete oid (disappeared t)\<rparr>)"
    by (auto simp: tracker_ok_def delete_keys distinct_removeAll list_all_iff)
  ultimately show ?thesis
    using assms(2) by (simp add: deregister_def)
qed


lemma age_loop_aged:
  assumes "tracker_ok t" and "distinct oids" and "set oids \<subseteq> fst ` set (disappeared t)"
  shows "\<exists>t'. age_loop oids t = Inr t' \<and> aged t (set oids) t'"
  using assms
proof (induction oids arbitrary: t)
  case Nil
  then show ?case by (simp add: aged_def)
next
  case (Cons oid oids)
  from Cons.prems(3) have "oid \<in> fst ` set (disappeared t)" by simp
  then obtain d where d: "map_of (disappeared t) oid = Some d"
    by (metis domD dom_map_of_conv_image_fst)
  from Cons.prems(2) have fresh: "oid \<notin> set oids" and dist: "distinct oids" by simp_all
  let ?t1 = "t\<lparr>disappeared := AList.update oid (d + 1) (disappeared t)\<rparr>"
  have ok1: "tracker_ok ?t1"
    using Cons.prems(1) d by (rule tracker_ok_update_disappeared)
  have d1: "map_of (disappeared ?t1) oid = Some (d + 1)"
    by (simp add: update_conv')
  show ?case
  proof (cases "d + 1 > max_disappeared t")
    case True
    from tracker_ok_deregister [OF ok1 d1] obtain t2 where
      t2: "deregister ?t1 oid = Inr t2" "tracker_ok t2"
        "objects t2 = AList.delete oid (objects ?t1)"
        "disappeared t2 = AList.delete oid (disappeared ?t1)"
        "max_disappeared t2 = max_disappeared ?t1" "max_distance t2 = max_distance ?t1"
        "next_object_id t2 = next_object_id ?t1"
      by blast
    have sub: "set oids \<subseteq> fst ` set (disappeared t2)"
      using Cons.prems(3) fresh
      by (auto simp: t2(4) keys_delete dom_update)
    from Cons.IH [OF t2(2) dist sub] obtain t' where
      t': "age_loop oids t2 = Inr t'" "aged t2 (set oids) t'"
      by blast
    have "age_loop (oid # oids) t = Inr t'"
      using d True t2(1) t'(1) by simp
    moreover have "aged t (set (oid # oids)) t'"
      using t'(2) d True fresh
      by (auto simp: aged_def t2 update_conv' delete_conv' split: option.splits)
    ultimately show ?thesis by blast
  next
    case False
    have sub: "set oids \<subseteq> fst ` set (disappeared ?t1)"
      using Cons.prems(3) by (auto simp: dom_update)
    from Cons.IH [OF ok1 dist sub] obtain t' where
      t': "age_loop oids ?t1 = Inr t'" "aged ?t1 (set oids) t'"
      by blast
    have "age_loop (oid # oids) t = Inr t'"
      using d False t'(1) by simp
    moreover have "aged t (set (oid # oids)) t'"
      using t'(2) d False fresh
      by (auto simp: aged_def update_conv' split: option.splits)
    ultimately show ?thesis by blast
  qed
qed


subsection \<open>The assignment loop\<close>

lemma map_of_nth_key:
  assumes "distinct (map fst al)" and "i < length al"
  shows "map_of al (map fst al ! i) = Some (snd (al ! i))"
proof -
  from assms(2) have "al ! i \<in> set al" by simp
  then have "(fst (al ! i), snd (al ! i)) \<in> set al" by simp
  with assms(1) have "map_of al (fst (al ! i)) = Some (snd (al ! i))"
    by (rule map_of_is_SomeI)
  with assms(2) show ?thesis by simp
qed

lemma update_keys_present:
  "k \<in> set (map fst al) \<Longrightarrow> map fst (AList.update k v al) = map fst al"
  by (simp add: update_keys)

lemma commit_match_fields:
  assumes "commit_match oids ics pts row col s = Inr s1"
  shows "used_row_indices s1 = insert row (used_row_indices s)"
    and "used_col_indices s1 = insert col (used_col_indices s)"
    and "committed s1 = committed s @ [(row, col)]"
    and "max_distance (tracker s1) = max_distance (tracker s)"
    and "max_disappeared (tracker s1) = max_disappeared (tracker s)"
    and "next_object_id (tracker s1) = next_object_id (tracker s)"
    and "\<exists>obj. map_of (objects (tracker s)) (oids ! row) = Some obj \<and>
           objects (tracker s1) =
             AList.update (oids ! row) (matched_object obj (ics ! col) (pts ! col))
               (objects (tracker s)) \<and>
           disappeared (tracker s1) = AList.update (oids ! row) 0 (disappeared (tracker s))"
  using assms by (auto simp: commit_match_def Let_def split: option.splits)

lemma commit_match_total:
  assumes "map fst (objects (tracker s)) = oids" and "row < length oids"
  shows "\<exists>s1. commit_match oids ics pts row col s = Inr s1"
proof -
  from assms have "oids ! row \<in> fst ` set (objects (tracker s))"
    by (metis nth_mem set_map)
  then obtain obj where "map_of (objects (tracker s)) (oids ! row) = Some obj"
    by (metis domD dom_map_of_conv_image_fst)
  then show ?thesis
    by (simp add: commit_match_def Let_def)
qed

lemma commit_match_keys:
  assumes "commit_match oids ics pts row col s = Inr s1"
    and "map fst (objects (tracker s)) = oids" and "map fst (disappeared (tracker s)) = oids"
    and "row < length oids"
  shows "map fst (objects (tracker s1)) = oids \<and> map fst (disappeared (tracker s1)) = oids"
proof -
  from assms(2-4) have "oids ! row \<in> set (map fst (objects (tracker s)))"
    and "oids ! row \<in> set (map fst (disappeared (tracker s)))"
    by simp_all
  with commit_match_fields(7) [OF assms(1)] assms(2,3) show ?thesis
    by (auto simp: update_keys_present)
qed

lemma assign_loop_skip:
  assumes "row \<in> used_row_indices s \<or> col \<in> used_col_indices s \<or>
           exceeds (D ! row ! col) (max_distance (tracker s))"
  shows "assign_loop D oids ics pts ((row, col) # rest) s = assign_loop D oids ics pts rest s"
  using assms by auto

lemma assign_loop_commit:
  assumes "\<not> (row \<in> used_row_indices s \<or> col \<in> used_col_indices s \<or>
              exceeds (D ! row ! col) (max_distance (tracker s)))"
  shows "assign_loop D oids ics pts ((row, col) # rest) s =
           (case commit_match oids ics pts row col s of
              Inl e \<Rightarrow> Inl e
            | Inr s1 \<Rightarrow> assign_loop D oids ics pts rest s1)"
  using assms by auto

lemma assign_loop_total:
  assumes "map fst (objects (tracker s)) = oids" and "map fst (disappeared (tracker s)) = oids"
    and "\<forall>rc \<in> set rcs. fst rc < length oids"
  shows "\<exists>s'. assign_loop D oids ics pts rcs s = Inr s' \<and>
           map fst (objects (tracker s')) = oids \<and> map fst (disappeared (tracker s')) = oids \<and>
           max_distance (tracker s') = max_distance (tracker s) \<and>
           max_disappeared (tracker s') = max_disappeared (tracker s) \<and>
           next_object_id (tracker s') = next_object_id (tracker s)"
  using assms
proof (induction rcs arbitrary: s)
  case Nil
  then show ?case by simp
next
  case (Cons rc rcs)
  obtain row col where rc: "rc = (row, col)" by (cases rc)
  from Cons.prems(3) rc have row: "row < length oids" and rest: "\<forall>rc \<in> set rcs. fst rc < length oids"
    by simp_all
  show ?case
  proof (cases "row \<in> used_row_indices s \<or> col \<in> used_col_indices s \<or>
                exceeds (D ! row ! col) (max_distance (tracker s))")
    case True
    with Cons.IH [OF Cons.prems(1,2) rest] rc show ?thesis
      by (simp only: assign_loop_skip)
  next
    case False
    from commit_match_total [OF Cons.prems(1) row] obtain s1 where
      s1: "commit_match oids ics pts row col s = Inr s1" by blast
    from commit_match_keys [OF s1 Cons.prems(1,2) row]
    have k1: "map fst (objects (tracker s1)) = oids" "map fst (disappeared (tracker s1)) = oids"
      by simp_all
    from Cons.IH [OF k1 rest] obtain s' where
      "assign_loop D oids ics pts rcs s1 = Inr s'"
      "map fst (objects (tracker s')) = oids" "map fst (disappeared (tracker s')) = oids"
      "max_distance (tracker s') = max_distance (tracker s1)"
      "max_disappeared (tracker s') = max_disappeared (tracker s1)"
      "next_object_id (tracker s') = next_object_id (tracker s1)"
      by blast
    with False rc s1 commit_match_fields(4-6) [OF s1] show ?thesis
      by (simp add: assign_loop_commit del: assign_loop.simps)
  qed
qed


lemma loop_trace_skip: "loop_trace D rcs s s' new \<Longrightarrow> loop_trace D (rc # rcs) s s' new"
  unfolding loop_trace_def by (elim conjE, intro conjI) (simp_all add: subset_insertI2)

lemma loop_trace_commit:
  assumes c: "commit_match oids ics pts row col s = Inr s1"
    and n: "\<not> (row \<in> used_row_indices s \<or> col \<in> used_col_indices s \<or>
              exceeds (D ! row ! col) (max_distance (tracker s)))"
    and t: "loop_trace D rcs s1 s' new"
  shows "loop_trace D ((row, col) # rcs) s s' ((row, col) # new)"
proof -
  note f = commit_match_fields [OF c]
  from t have new:
      "committed s' = committed s1 @ new" "set new \<subseteq> set rcs"
      "used_row_indices s' = used_row_indices s1 \<union> fst ` set new"
      "used_col_indices s' = used_col_indices s1 \<union> snd ` set new"
      "distinct (map fst new)" "distinct (map snd new)"
      "fst ` set new \<inter> used_row_indices s1 = {}"
      "snd ` set new \<inter> used_col_indices s1 = {}"
      "\<forall>rc \<in> set new. \<not> exceeds (D ! fst rc ! snd rc) (max_distance (tracker s1))"
    unfolding loop_trace_def by simp_all
  let ?new = "(row, col) # new"
  have c1: "committed s' = committed s @ ?new"
    using new(1) f(3) by simp
  have c2: "set ?new \<subseteq> set ((row, col) # rcs)"
    using new(2) by auto
  have c3: "used_row_indices s' = used_row_indices s \<union> fst ` set ?new"
    using new(3) f(1) by auto
  have c4: "used_col_indices s' = used_col_indices s \<union> snd ` set ?new"
    using new(4) f(2) by auto
  have c5: "distinct (map fst ?new)"
    using new(5,7) f(1) by auto
  have c6: "distinct (map snd ?new)"
    using new(6,8) f(2) by auto
  have c7: "fst ` set ?new \<inter> used_row_indices s = {}"
    using new(7) f(1) n by auto
  have c8: "snd ` set ?new \<inter> used_col_indices s = {}"
    using new(8) f(2) n by auto
  have c9: "\<forall>rc \<in> set ?new. \<not> exceeds (D ! fst rc ! snd rc) (max_distance (tracker s))"
    using new(9) f(4) n by auto
  show ?thesis
    unfolding loop_trace_def by (intro conjI c1 c2 c3 c4 c5 c6 c7 c8 c9)
qed

lemma assign_loop_committed:
  assumes "assign_loop D oids ics pts rcs s = Inr s'"
  shows "\<exists>new. loop_trace D rcs s s' new"
  using assms
proof (induction rcs arbitrary: s)
  case Nil
  then show ?case by (simp add: loop_trace_def)
next
  case (Cons rc rcs)
  obtain row col where rc: "rc = (row, col)" by (cases rc)
  show ?case
  proof (cases "row \<in> used_row_indices s \<or> col \<in> used_col_indices s \<or>
                exceeds (D ! row ! col) (max_distance (tracker s))")
    case True
    with Cons.prems rc have "assign_loop D oids ics pts rcs s = Inr s'"
      by (simp only: assign_loop_skip)
    from Cons.IH [OF this] show ?thesis
      using loop_trace_skip by blast
  next
    case False
    from Cons.prems rc have
      "(case commit_match oids ics pts row col s of
              Inl e \<Rightarrow> Inl e
            | Inr s1 \<Rightarrow> assign_loop D oids ics pts rcs s1) = Inr s'"
      by (simp only: assign_loop_commit [OF False])
    then obtain s1 where
      s1: "commit_match oids ics pts row col s = Inr s1"
      and rest: "assign_loop D oids ics pts rcs s1 = Inr s'"
      by (cases "commit_match oids ics pts row col s") simp_all
    from Cons.IH [OF rest] obtain new where "loop_trace D rcs s1 s' new" ..
    from loop_trace_commit [OF s1 False this] rc show ?thesis by blast
  qed
qed



lemma loop_trace_unique:
  "loop_trace D rcs s s' new \<Longrightarrow> loop_trace D rcs' s s' new' \<Longrightarrow> new' = new"
  by (simp add: loop_trace_def)

lemma loop_effect_commit:
  assumes c: "commit_match oids ics pts row col s = Inr s1"
    and d: "distinct oids" and row: "row < length oids"
    and rng: "\<forall>rc \<in> set new. fst rc < length oids"
    and fresh: "row \<notin> fst ` set new"
    and e: "loop_effect oids ics pts s1 s' new"
  shows "loop_effect oids ics pts s s' ((row, col) # new)"
proof -
  from commit_match_fields(7) [OF c] obtain obj where
    obj: "map_of (objects (tracker s)) (oids ! row) = Some obj"
    and o1: "objects (tracker s1) =
             AList.update (oids ! row) (matched_object obj (ics ! col) (pts ! col))
               (objects (tracker s))"
    and d1: "disappeared (tracker s1) = AList.update (oids ! row) 0 (disappeared (tracker s))"
    by blast
  have other: "oids ! fst rc \<noteq> oids ! row" if "rc \<in> set new" for rc
  proof -
    from that fresh have "fst rc \<noteq> row" by auto
    moreover from that rng have "fst rc < length oids" by simp
    ultimately show ?thesis
      using d row by (simp add: nth_eq_iff_index_eq)
  qed
  then have notin: "oids ! row \<notin> (\<lambda>rc. oids ! fst rc) ` set new"
    by force
  from e have e1: "\<And>k. k \<notin> (\<lambda>rc. oids ! fst rc) ` set new \<Longrightarrow>
          map_of (objects (tracker s')) k = map_of (objects (tracker s1)) k \<and>
          map_of (disappeared (tracker s')) k = map_of (disappeared (tracker s1)) k"
    and e2: "\<And>rc. rc \<in> set new \<Longrightarrow>
          map_of (objects (tracker s')) (oids ! fst rc) =
            map_option (\<lambda>obj. matched_object obj (ics ! snd rc) (pts ! snd rc))
              (map_of (objects (tracker s1)) (oids ! fst rc)) \<and>
          map_of (disappeared (tracker s')) (oids ! fst rc) = Some 0"
    unfolding loop_effect_def by blast+
  have p1: "map_of (objects (tracker s')) k = map_of (objects (tracker s)) k \<and>
            map_of (disappeared (tracker s')) k = map_of (disappeared (tracker s)) k"
    if "k \<notin> (\<lambda>rc. oids ! fst rc) ` set ((row, col) # new)" for k
  proof -
    from that have "k \<noteq> oids ! row" and "k \<notin> (\<lambda>rc. oids ! fst rc) ` set new"
      by auto
    with e1 [of k] show ?thesis
      by (simp add: o1 d1 update_conv')
  qed
  have p2: "map_of (objects (tracker s')) (oids ! fst rc) =
            map_option (\<lambda>obj. matched_object obj (ics ! snd rc) (pts ! snd rc))
              (map_of (objects (tracker s)) (oids ! fst rc)) \<and>
          map_of (disappeared (tracker s')) (oids ! fst rc) = Some 0"
    if "rc \<in> set ((row, col) # new)" for rc
  proof (cases "rc = (row, col)")
    case True
    with e1 [OF notin] obj show ?thesis
      by (simp add: o1 d1 update_conv')
  next
    case False
    with that have "rc \<in> set new" by simp
    with e2 [OF this] other [OF this] show ?thesis
      by (simp add: o1 d1 update_conv')
  qed
  show ?thesis
    unfolding loop_effect_def using p1 p2 by blast
qed

lemma assign_loop_effect:
  assumes "assign_loop D oids ics pts rcs s = Inr s'"
    and "distinct oids" and "\<forall>rc \<in> set rcs. fst rc < length oids"
    and "loop_trace D rcs s s' new"
  shows "loop_effect oids ics pts s s' new"
  using assms
proof (induction rcs arbitrary: s new)
  case Nil
  then show ?case by (simp add: loop_trace_def loop_effect_def)
next
  case (Cons rc rcs)
  obtain row col where rc: "rc = (row, col)" by (cases rc)
  from Cons.prems(3) rc have row: "row < length oids"
    and rng: "\<forall>rc \<in> set rcs. fst rc < length oids"
    by simp_all
  show ?case
  proof (cases "row \<in> used_row_indices s \<or> col \<in> used_col_indices s \<or>
                exceeds (D ! row ! col) (max_distance (tracker s))")
    case True
    with Cons.prems(1) rc have loop: "assign_loop D oids ics pts rcs s = Inr s'"
      by (simp only: assign_loop_skip)
    from assign_loop_committed [OF loop] obtain new' where
      t: "loop_trace D rcs s s' new'" ..
    from loop_trace_unique [OF t Cons.prems(4)] have "new = new'" .
    with Cons.IH [OF loop Cons.prems(2) rng t] show ?thesis by simp
  next
    case False
    from Cons.prems(1) rc have
      "(case commit_match oids ics pts row col s of
              Inl e \<Rightarrow> Inl e
            | Inr s1 \<Rightarrow> assign_loop D oids ics pts rcs s1) = Inr s'"
      by (simp only: assign_loop_commit [OF False])
    then obtain s1 where
      s1: "commit_match oids ics pts row col s = Inr s1"
      and loop: "assign_loop D oids ics pts rcs s1 = Inr s'"
      by (cases "commit_match oids ics pts row col s") simp_all
    from assign_loop_committed [OF loop] obtain new1 where
      t: "loop_trace D rcs s1 s' new1" ..
    from loop_trace_unique [OF loop_trace_commit [OF s1 False t] Cons.prems(4)]
    have new: "new = (row, col) # new1" .
    from t have "set new1 \<subseteq> set rcs" and "fst ` set new1 \<inter> used_row_indices s1 = {}"
      by (simp_all add: loop_trace_def)
    with rng commit_match_fields(1) [OF s1]
    have rng1: "\<forall>rc \<in> set new1. fst rc < length oids" and fresh: "row \<notin> fst ` set new1"
      by auto
    from Cons.IH [OF loop Cons.prems(2) rng t]
    have "loop_effect oids ics pts s1 s' new1" .
    from loop_effect_commit [OF s1 Cons.prems(2) row rng1 fresh this] new
    show ?thesis by simp
  qed
qed


subsection \<open>One update cycle\<close>

lemma fold_min_in: "fold min xs (a::int) \<in> insert a (set xs)"
  by (induction xs arbitrary: a) (auto simp: min_def)

lemma list_min_in: "xs \<noteq> [] \<Longrightarrow> list_min xs \<in> set xs"
  using fold_min_in [of "tl xs" "hd xs"] by (cases xs) (auto simp: list_min_def)

lemma takeWhile_stops:
  assumes "y \<in> set ys" and "\<not> Q y"
  shows "length (takeWhile Q ys) < length ys"
  using assms by (induction ys) auto

lemma argmin_less:
  assumes "xs \<noteq> []"
  shows "argmin xs < length xs"
  unfolding argmin_def
  by (rule takeWhile_stops [OF list_min_in [OF assms]]) simp

lemma set_argsort: "set (argsort ks) = {0..<length ks}"
  by (simp add: argsort_def)

lemma zip_map_self: "zip xs (map f xs) = map (\<lambda>x. (x, f x)) xs"
  by (induction xs) auto

lemma candidate_pairs_set:
  "set (candidate_pairs D) = (\<lambda>r. (r, argmin (D ! r))) ` {0..<length D}"
  by (simp add: candidate_pairs_def Let_def zip_map_self set_argsort)

lemma distance_matrix_nth:
  "r < length ocs \<Longrightarrow> c < length ics \<Longrightarrow>
     distance_matrix ocs ics ! r ! c = dist2 (ocs ! r) (ics ! c)"
  by (simp add: distance_matrix_def)

lemma candidate_pairs_range:
  assumes "ics \<noteq> []" and "rc \<in> set (candidate_pairs (distance_matrix ocs ics))"
  shows "fst rc < length ocs \<and> snd rc < length ics"
proof -
  from assms(2) obtain r where r: "r < length ocs" and rc: "rc = (r, argmin (distance_matrix ocs ics ! r))"
    by (auto simp: candidate_pairs_set distance_matrix_def)
  from r have "distance_matrix ocs ics ! r = map (\<lambda>ic. dist2 (ocs ! r) ic) ics"
    by (simp add: distance_matrix_def)
  with assms(1) have "argmin (distance_matrix ocs ics ! r) < length ics"
    using argmin_less [of "map (\<lambda>ic. dist2 (ocs ! r) ic) ics"] by simp
  with r rc show ?thesis by simp
qed

lemma dist2_nonneg: "0 \<le> dist2 a b"
  by (simp add: dist2_def)

lemma exceeds_iff_sqrt:
  assumes "0 \<le> d"
  shows "exceeds d m \<longleftrightarrow> real_of_int m < sqrt (real_of_int d)"
proof (cases "m < 0")
  case True
  have "0 \<le> sqrt (real_of_int d)" using assms by simp
  moreover from True have "real_of_int m < 0" by simp
  ultimately have "real_of_int m < sqrt (real_of_int d)" by linarith
  with True show ?thesis by (simp add: exceeds_def)
next
  case False
  then have "real_of_int m = sqrt (real_of_int (m * m))"
    by simp
  then have "real_of_int m < sqrt (real_of_int d) \<longleftrightarrow> real_of_int (m * m) < real_of_int d"
    by (simp only: real_sqrt_less_iff)
  also have "\<dots> \<longleftrightarrow> m * m < d"
    by (simp only: of_int_less_iff)
  finally show ?thesis using False by (simp add: exceeds_def)
qed

lemma update_trace_assign:
  assumes ok: "tracker_ok t" and dets: "detections \<noteq> []" and objs: "objects t \<noteq> []"
    and ics: "ics = input_centroids detections" and pts: "pts = plate_texts detections"
    and oids: "oids = map fst (objects t)"
    and D: "D = distance_matrix (map (\<lambda>kv. centroid (snd kv)) (objects t)) ics"
    and s0: "s0 = \<lparr>used_row_indices = {}, used_col_indices = {}, tracker = t, committed = []\<rparr>"
  shows "\<exists>s'. update_trace t detections = Inr (tracker s', committed s') \<and>
           loop_trace D (candidate_pairs D) s0 s' (committed s') \<and>
           loop_effect oids ics pts s0 s' (committed s') \<and>
           map fst (objects (tracker s')) = oids \<and>
           map fst (disappeared (tracker s')) = oids \<and>
           max_distance (tracker s') = max_distance t \<and>
           max_disappeared (tracker s') = max_disappeared t \<and>
           next_object_id (tracker s') = next_object_id t \<and>
           (\<forall>rc \<in> set (committed s'). fst rc < length (objects t) \<and> snd rc < length detections)"
proof -
  from dets ics have ne: "ics \<noteq> []" by (simp add: input_centroids_def)
  have rng: "\<forall>rc \<in> set (candidate_pairs D). fst rc < length oids \<and> snd rc < length ics"
    using candidate_pairs_range [OF ne] unfolding D oids by fastforce
  then have rng1: "\<forall>rc \<in> set (candidate_pairs D). fst rc < length oids" by blast
  from ok have k: "map fst (objects (tracker s0)) = oids" "map fst (disappeared (tracker s0)) = oids"
    and d: "distinct oids"
    by (simp_all add: tracker_ok_def s0 oids)
  from assign_loop_total [OF k rng1, of D ics pts] obtain s' where
    loop: "assign_loop D oids ics pts (candidate_pairs D) s0 = Inr s'"
    and k': "map fst (objects (tracker s')) = oids" "map fst (disappeared (tracker s')) = oids"
    and c: "max_distance (tracker s') = max_distance (tracker s0)"
      "max_disappeared (tracker s') = max_disappeared (tracker s0)"
      "next_object_id (tracker s') = next_object_id (tracker s0)"
    by blast
  from assign_loop_committed [OF loop] obtain new where
    tr: "loop_trace D (candidate_pairs D) s0 s' new" ..
  then have new: "new = committed s'"
    by (simp add: loop_trace_def s0)
  from assign_loop_effect [OF loop d rng1 tr]
  have ef: "loop_effect oids ics pts s0 s' new" .
  from tr have "set new \<subseteq> set (candidate_pairs D)"
    by (simp add: loop_trace_def)
  with rng have inr: "\<forall>rc \<in> set new. fst rc < length (objects t) \<and> snd rc < length detections"
    by (auto simp: oids ics input_centroids_def)
  have "update_trace t detections = Inr (tracker s', committed s')"
    using dets objs loop
    by (simp add: update_trace_def Let_def ics [symmetric] pts [symmetric] oids [symmetric]
          D [symmetric] s0 [symmetric])
  with tr ef k' c inr new show ?thesis
    by (auto simp: s0)
qed


lemma tracker_ok_register:
  assumes "tracker_ok t"
  shows "tracker_ok (register t c txt)"
proof -
  from assms have "next_object_id t \<notin> set (map fst (objects t))"
    and "next_object_id t \<notin> set (map fst (disappeared t))"
    by (auto simp: tracker_ok_def list_all_iff)
  then have "map fst (objects (register t c txt)) = map fst (objects t) @ [next_object_id t]"
    and "map fst (disappeared (register t c txt)) = map fst (disappeared t) @ [next_object_id t]"
    by (simp_all add: register_def update_keys)
  with assms show ?thesis
    by (auto simp: tracker_ok_def list_all_iff register_def)
qed

lemma tracker_ok_register_all: "tracker_ok t \<Longrightarrow> tracker_ok (register_all cs t)"
  by (induction cs t rule: register_all.induct) (simp_all add: tracker_ok_register)

lemma tracker_ok_new: "tracker_ok (new_tracker md mdist)"
  by (simp add: tracker_ok_def new_tracker_def)

lemma empty_update_aged:
  assumes "tracker_ok t"
  shows "\<exists>t'. update_trace t [] = Inr (t', []) \<and> aged t (fst ` set (disappeared t)) t'"
proof -
  from assms have "distinct (map fst (disappeared t))"
    by (simp add: tracker_ok_def)
  from age_loop_aged [OF assms this] obtain t' where
    "age_loop (map fst (disappeared t)) t = Inr t'"
    "aged t (set (map fst (disappeared t))) t'"
    by auto
  then show ?thesis
    by (simp add: update_trace_def)
qed

lemma update_total:
  assumes "tracker_ok t"
  shows "\<exists>t' ms. update_trace t detections = Inr (t', ms) \<and> update t detections = Inr t' \<and>
           tracker_ok t'"
proof (cases "detections = []")
  case True
  from empty_update_aged [OF assms] obtain t' where
    "update_trace t [] = Inr (t', [])" "aged t (fst ` set (disappeared t)) t'"
    by blast
  with True show ?thesis
    by (simp add: update_def aged_def)
next
  case False
  show ?thesis
  proof (cases "objects t = []")
    case True
    with False assms show ?thesis
      by (simp add: update_def update_trace_def Let_def tracker_ok_register_all)
  next
    case False
    from update_trace_assign [OF assms \<open>detections \<noteq> []\<close> False refl refl refl refl refl]
    obtain s' :: assign_state
      where s': "update_trace t detections = Inr (tracker s', committed s')"
      "map fst (objects (tracker s')) = map fst (objects t)"
      "map fst (disappeared (tracker s')) = map fst (objects t)"
      "next_object_id (tracker s') = next_object_id t"
      by blast
    with assms have "tracker_ok (tracker s')"
      by (simp add: tracker_ok_def)
    with s'(1) show ?thesis
      by (simp add: update_def)
  qed
qed


lemma matched_object_fields:
  "centroid (matched_object obj c txt) = c"
  "track_history (matched_object obj c txt) = deque_append 10 (track_history obj) c"
  "obj_plate_text (matched_object obj c txt) = (if txt = [] then obj_plate_text obj else txt)"
  "confidence_history (matched_object obj c txt) = confidence_history obj"
  by (simp_all add: matched_object_def Let_def)

lemma assign_branch:
  assumes ok: "tracker_ok t" and dets: "detections \<noteq> []" and objs: "objects t \<noteq> []"
  shows "\<exists>t' ms. update_trace t detections = Inr (t', ms) \<and>
           distinct (map fst ms) \<and> distinct (map snd ms) \<and>
           map fst (objects t') = map fst (objects t) \<and>
           map fst (disappeared t') = map fst (objects t) \<and>
           (\<forall>rc \<in> set ms.
              fst rc < length (objects t) \<and> snd rc < length detections \<and>
              \<not> exceeds (dist2 (centroid (snd (objects t ! fst rc)))
                            (centroid_of (bbox (detections ! snd rc)))) (max_distance t) \<and>
              map_of (objects t') (fst (objects t ! fst rc)) =
                Some (matched_object (snd (objects t ! fst rc))
                        (centroid_of (bbox (detections ! snd rc)))
                        (plate_texts detections ! snd rc)) \<and>
              map_of (disappeared t') (fst (objects t ! fst rc)) = Some 0) \<and>
           (\<forall>k. k \<notin> (\<lambda>rc. fst (objects t ! fst rc)) ` set ms \<longrightarrow>
              map_of (objects t') k = map_of (objects t) k \<and>
              map_of (disappeared t') k = map_of (disappeared t) k)"
proof -
  define ics where "ics = input_centroids detections"
  define pts where "pts = plate_texts detections"
  define oids where "oids = map fst (objects t)"
  define ocs where "ocs = map (\<lambda>kv. centroid (snd kv)) (objects t)"
  define D where "D = distance_matrix ocs ics"
  define s0 where
    "s0 = \<lparr>used_row_indices = {}, used_col_indices = {}, tracker = t, committed = []\<rparr>"
  from update_trace_assign [OF ok dets objs ics_def pts_def oids_def D_def [unfolded ocs_def] s0_def]
  obtain s' :: assign_state where
    upd: "update_trace t detections = Inr (tracker s', committed s')"
    and tr: "loop_trace D (candidate_pairs D) s0 s' (committed s')"
    and ef: "loop_effect oids ics pts s0 s' (committed s')"
    and keys: "map fst (objects (tracker s')) = oids" "map fst (disappeared (tracker s')) = oids"
    and rng: "\<forall>rc \<in> set (committed s'). fst rc < length (objects t) \<and> snd rc < length detections"
    by blast
  let ?ms = "committed s'" and ?t' = "tracker s'"
  from ok have dist: "distinct (map fst (objects t))"
    by (simp add: tracker_ok_def)
  from tr have d1: "distinct (map fst ?ms)" and d2: "distinct (map snd ?ms)"
    and ex: "\<And>rc. rc \<in> set ?ms \<Longrightarrow> \<not> exceeds (D ! fst rc ! snd rc) (max_distance t)"
    by (simp_all add: loop_trace_def s0_def)
  from ef have
    e1: "\<And>k. k \<notin> (\<lambda>rc. oids ! fst rc) ` set ?ms \<Longrightarrow>
          map_of (objects ?t') k = map_of (objects t) k \<and>
          map_of (disappeared ?t') k = map_of (disappeared t) k"
    and e2: "\<And>rc. rc \<in> set ?ms \<Longrightarrow>
          map_of (objects ?t') (oids ! fst rc) =
            map_option (\<lambda>obj. matched_object obj (ics ! snd rc) (pts ! snd rc))
              (map_of (objects t) (oids ! fst rc)) \<and>
          map_of (disappeared ?t') (oids ! fst rc) = Some 0"
    unfolding loop_effect_def s0_def by simp_all
  have key: "oids ! fst rc = fst (objects t ! fst rc)" if "rc \<in> set ?ms" for rc
    using that rng by (simp add: oids_def)
  have matched: "fst rc < length (objects t) \<and> snd rc < length detections \<and>
              \<not> exceeds (dist2 (centroid (snd (objects t ! fst rc)))
                            (centroid_of (bbox (detections ! snd rc)))) (max_distance t) \<and>
              map_of (objects ?t') (fst (objects t ! fst rc)) =
                Some (matched_object (snd (objects t ! fst rc))
                        (centroid_of (bbox (detections ! snd rc)))
                        (plate_texts detections ! snd rc)) \<and>
              map_of (disappeared ?t') (fst (objects t ! fst rc)) = Some 0"
    if m: "rc \<in> set ?ms" for rc
  proof -
    from m rng have r: "fst rc < length (objects t)" and c: "snd rc < length detections"
      by simp_all
    from r c have "D ! fst rc ! snd rc =
        dist2 (centroid (snd (objects t ! fst rc))) (centroid_of (bbox (detections ! snd rc)))"
      by (simp add: D_def ocs_def ics_def input_centroids_def distance_matrix_nth)
    with ex [OF m] have a: "\<not> exceeds (dist2 (centroid (snd (objects t ! fst rc)))
                            (centroid_of (bbox (detections ! snd rc)))) (max_distance t)"
      by simp
    from map_of_nth_key [OF dist r] have "map_of (objects t) (oids ! fst rc) =
        Some (snd (objects t ! fst rc))"
      by (simp add: oids_def)
    with e2 [OF m] c have "map_of (objects ?t') (oids ! fst rc) =
                Some (matched_object (snd (objects t ! fst rc))
                        (centroid_of (bbox (detections ! snd rc)))
                        (plate_texts detections ! snd rc))"
      and "map_of (disappeared ?t') (oids ! fst rc) = Some 0"
      by (simp_all add: ics_def pts_def input_centroids_def)
    with r c a key [OF m] show ?thesis by simp
  qed
  have img: "(\<lambda>rc. fst (objects t ! fst rc)) ` set ?ms = (\<lambda>rc. oids ! fst rc) ` set ?ms"
    using key by (intro image_cong) simp_all
  have rest: "map_of (objects ?t') k = map_of (objects t) k \<and>
              map_of (disappeared ?t') k = map_of (disappeared t) k"
    if "k \<notin> (\<lambda>rc. fst (objects t ! fst rc)) ` set ?ms" for k
    using that e1 [of k] unfolding img by simp
  from upd d1 d2 keys matched rest show ?thesis
    unfolding oids_def by blast
qed

subsection \<open>The claims about the tracker\<close>

text \<open>The definitions that evaluate one cycle on concrete input.\<close>

lemmas tracker_eval =
  update_def update_trace_def input_centroids_def plate_texts_def centroid_of_def
  int_half_sum_def distance_matrix_def dist2_def candidate_pairs_def argsort_def list_min_def
  argmin_def exceeds_def commit_match_def matched_object_def deque_append_def register_def
  deregister_def Let_def upt_rec

lemma demo_tracker_ok: "tracker_ok demo_tracker"
  by (simp add: tracker_ok_def demo_tracker_def)

lemma demo_far:
  "update_trace demo_tracker [demo_detection (1000, 1000, 50, 20) (Some ''ZZ9999'')] =
     Inr (demo_tracker, [])"
  by (simp add: demo_tracker_def demo_detection_def demo_object_def tracker_eval)

lemma demo_near:
  "update_trace demo_tracker
     [demo_detection (40, 40, 10, 10) (Some []), demo_detection (41, 41, 10, 10) (Some ''ZZ9999'')] =
   Inr (demo_tracker\<lparr>objects :=
          [(0, \<lparr>centroid = (45, 45), obj_plate_text = ''AB1234'', track_history = [(45, 45)],
                confidence_history = []\<rparr>),
           (1, \<lparr>centroid = (46, 46), obj_plate_text = ''ZZ9999'', track_history = [(46, 46)],
                confidence_history = []\<rparr>)],
        disappeared := [(0, 0), (1, 0)]\<rparr>, [(1, 1), (0, 0)])"
  by (simp add: demo_tracker_def demo_detection_def demo_object_def tracker_eval)

lemma history_tracker_ok: "tracker_ok history_tracker"
  by (simp add: tracker_ok_def history_tracker_def)

lemma history_near:
  "\<exists>t'. update_trace history_tracker [demo_detection (6, 6, 10, 10) None] = Inr (t', [(0, 0)])"
  by (simp add: history_tracker_def demo_detection_def tracker_eval)


text \<open>
  Claim C9. On a tracker without objects, \<open>update\<close> with the single detection of
  region \<open>(10, 10, 50, 20)\<close>, text \<open>AB1234\<close> and confidence 0.9 registers exactly one
  object, under the next free id, with centroid \<open>(35, 20)\<close>, plate text \<open>AB1234\<close> and a
  disappearance counter of 0.
\<close>

theorem first_detection_registers:
  assumes "tracker_ok t" and "objects t = []"
  shows "update t [\<lparr>bbox = (10, 10, 50, 20), det_text = Some ''AB1234'', confidence = 0.9\<rparr>] =
     Inr (t\<lparr>objects := [(next_object_id t,
                      \<lparr>centroid = (35, 20), obj_plate_text = ''AB1234'', track_history = [],
                       confidence_history = []\<rparr>)],
            disappeared := [(next_object_id t, 0)],
            next_object_id := next_object_id t + 1\<rparr>)"
proof -
  from assms have "disappeared t = []"
    by (simp add: tracker_ok_def)
  with assms(2) show ?thesis
    by (simp add: tracker_eval)
qed

text \<open>C9 at a freshly constructed tracker with the default parameters.\<close>

theorem first_detection_registers_witness:
  "tracker_ok (new_tracker 30 100) \<and> objects (new_tracker 30 100) = [] \<and>
   update (new_tracker 30 100)
     [\<lparr>bbox = (10, 10, 50, 20), det_text = Some ''AB1234'', confidence = 0.9\<rparr>] =
     Inr \<lparr>next_object_id = 1,
          objects = [(0, \<lparr>centroid = (35, 20), obj_plate_text = ''AB1234'', track_history = [],
                          confidence_history = []\<rparr>)],
          disappeared = [(0, 0)], max_disappeared = 30, max_distance = 100\<rparr>"
proof -
  have a: "tracker_ok (new_tracker 30 100)" by (rule tracker_ok_new)
  have b: "objects (new_tracker 30 100) = []" by (simp add: new_tracker_def)
  from first_detection_registers [OF a b] a b show ?thesis
    by (simp add: new_tracker_def)
qed

text \<open>
  Claim C5. An update cycle with an empty detection list returns, registers no object
  (no new key, \<open>next_object_id\<close> unchanged), and for every object with counter \<open>d\<close>:
  if \<open>d + 1\<close> exceeds \<open>max_disappeared\<close> the object has left both dicts, otherwise it is
  kept as it was with counter \<open>d + 1\<close>. So a counter that reaches \<open>max_disappeared\<close>
  exactly survives, and one that reaches \<open>max_disappeared + 1\<close> is removed.
\<close>

theorem empty_update_ages_entities:
  assumes "tracker_ok t"
  shows "\<exists>t'. update t [] = Inr t' \<and> tracker_ok t' \<and> next_object_id t' = next_object_id t \<and>
     (\<forall>oid. map_of (objects t) oid = None \<longrightarrow> map_of (objects t') oid = None) \<and>
     (\<forall>oid d. map_of (disappeared t) oid = Some d \<longrightarrow>
        (if max_disappeared t < d + 1
         then map_of (objects t') oid = None \<and> map_of (disappeared t') oid = None
         else map_of (objects t') oid = map_of (objects t) oid \<and>
              map_of (disappeared t') oid = Some (d + 1)))"
proof -
  from empty_update_aged [OF assms] obtain t' where
    upd: "update_trace t [] = Inr (t', [])" and ag: "aged t (fst ` set (disappeared t)) t'"
    by blast
  from upd have u: "update t [] = Inr t'"
    by (simp add: update_def)
  from ag have ok: "tracker_ok t'" and n: "next_object_id t' = next_object_id t"
    and dis: "\<And>k. map_of (disappeared t') k =
         (if k \<in> fst ` set (disappeared t)
          then (case map_of (disappeared t) k of
                  None \<Rightarrow> None
                | Some d \<Rightarrow> if d + 1 > max_disappeared t then None else Some (d + 1))
          else map_of (disappeared t) k)"
    and obj: "\<And>k. map_of (objects t') k =
         (if k \<in> fst ` set (disappeared t) \<and>
             (\<exists>d. map_of (disappeared t) k = Some d \<and> d + 1 > max_disappeared t)
          then None else map_of (objects t) k)"
    unfolding aged_def by simp_all
  have a: "map_of (objects t') oid = None" if "map_of (objects t) oid = None" for oid
    using that obj [of oid] by simp
  have b: "if max_disappeared t < d + 1
         then map_of (objects t') oid = None \<and> map_of (disappeared t') oid = None
         else map_of (objects t') oid = map_of (objects t) oid \<and>
              map_of (disappeared t') oid = Some (d + 1)"
    if d: "map_of (disappeared t) oid = Some d" for oid d
  proof -
    from d have "oid \<in> fst ` set (disappeared t)"
      by (metis domI dom_map_of_conv_image_fst)
    with d dis [of oid] obj [of oid] show ?thesis by simp
  qed
  from u ok n a b show ?thesis by blast
qed

text \<open>
  C5 at the two-object tracker: the object at counter 30 is removed (31 exceeds 30), the
  object at counter 29 survives with counter 30, the threshold itself.
\<close>

theorem empty_update_ages_entities_witness:
  "tracker_ok demo_tracker \<and>
   (\<exists>t'. update demo_tracker [] = Inr t' \<and> next_object_id t' = 2 \<and>
      map_of (objects t') 0 = None \<and> map_of (disappeared t') 0 = None \<and>
      map_of (objects t') 1 = Some (demo_object (50, 50) ''XY0001'') \<and>
      map_of (disappeared t') 1 = Some 30)"
proof -
  have d0: "map_of (disappeared demo_tracker) 0 = Some 30"
    and d1: "map_of (disappeared demo_tracker) 1 = Some 29"
    by (simp_all add: demo_tracker_def)
  from empty_update_ages_entities [OF demo_tracker_ok] obtain t' where
    u: "update demo_tracker [] = Inr t'" and n: "next_object_id t' = next_object_id demo_tracker"
    and all: "\<forall>oid d. map_of (disappeared demo_tracker) oid = Some d \<longrightarrow>
        (if max_disappeared demo_tracker < d + 1
         then map_of (objects t') oid = None \<and> map_of (disappeared t') oid = None
         else map_of (objects t') oid = map_of (objects demo_tracker) oid \<and>
              map_of (disappeared t') oid = Some (d + 1))"
    by blast
  from all d0 have "map_of (objects t') 0 = None \<and> map_of (disappeared t') 0 = None"
    by (auto simp: demo_tracker_def)
  moreover from all d1 have "map_of (objects t') 1 = Some (demo_object (50, 50) ''XY0001'') \<and>
      map_of (disappeared t') 1 = Some 30"
    by (auto simp: demo_tracker_def)
  moreover from n have "next_object_id t' = 2"
    by (simp add: demo_tracker_def)
  ultimately show ?thesis
    using u demo_tracker_ok by blast
qed

text \<open>
  Claim C2 fails on the code. With a detection that is too far from both objects, the
  cycle commits no match and returns the tracker unchanged: the unmatched object 0 keeps
  its counter 30 although 31 would exceed \<open>max_disappeared = 30\<close>, and it is not
  removed. Only the branch for an empty detection list ages and removes objects.
\<close>

theorem unmatched_entity_not_aged:
  "update demo_tracker [demo_detection (1000, 1000, 50, 20) (Some ''ZZ9999'')] =
     Inr demo_tracker \<and>
   map_of (disappeared demo_tracker) 0 = Some 30 \<and> max_disappeared demo_tracker = 30 \<and>
   map_of (objects demo_tracker) 0 = Some (demo_object (0, 0) ''AB1234'')"
  using demo_far by (simp add: update_def) (simp add: demo_tracker_def)


text \<open>
  The range does what it is for: in-range bounding boxes have in-range centroids, and
  in-range centroids have squared distances far below \<open>2 ^ 53\<close>.
\<close>

lemma centroid_in_frame:
  assumes "bbox_in_frame b"
  shows "in_frame (centroid_of b)"
proof -
  obtain x y w h where b: "b = (x, y, w, h)" by (cases b)
  with assms have r: "0 \<le> x" "0 \<le> y" "0 \<le> w" "0 \<le> h" "x + w < 2 ^ 24" "y + h < 2 ^ 24"
    by (simp_all add: bbox_in_frame_def)
  have half: "0 \<le> v \<Longrightarrow> 0 \<le> v div 2 \<and> v div 2 \<le> v" for v :: int
    by presburger
  have sum: "0 \<le> u \<Longrightarrow> 0 \<le> v \<Longrightarrow> int_half_sum u v = u + v div 2" for u v :: int
    by (simp add: int_half_sum_def)
  from r half [of w] half [of h] have "0 \<le> x + w div 2" "x + w div 2 < 2 ^ 24"
    "0 \<le> y + h div 2" "y + h div 2 < 2 ^ 24"
    by linarith+
  with r show ?thesis
    by (simp add: b in_frame_def centroid_of_def sum)
qed

lemma square_below:
  fixes d :: int
  assumes "- (2 ^ 24) < d" and "d < 2 ^ 24"
  shows "d * d < 2 ^ 48"
proof -
  from assms have "\<bar>d\<bar> < 2 ^ 24" by simp
  then have "\<bar>d\<bar> * \<bar>d\<bar> < 2 ^ 24 * 2 ^ 24"
    by (intro mult_strict_mono) simp_all
  then show ?thesis by simp
qed

lemma dist2_in_frame:
  assumes "in_frame a" and "in_frame b"
  shows "dist2 a b < 2 ^ 49"
proof -
  from assms have "- (2 ^ 24) < fst a - fst b" and "fst a - fst b < 2 ^ 24"
    by (simp_all add: in_frame_def)
  then have x: "(fst a - fst b) * (fst a - fst b) < 2 ^ 48"
    by (rule square_below)
  from assms have "- (2 ^ 24) < snd a - snd b" and "snd a - snd b < 2 ^ 24"
    by (simp_all add: in_frame_def)
  then have y: "(snd a - snd b) * (snd a - snd b) < 2 ^ 48"
    by (rule square_below)
  from x y show ?thesis by (simp add: dist2_def)
qed

text \<open>
  Claim C6. In a cycle with objects and detections whose coordinates and threshold are
  in the range of the integer model, the committed pairs \<open>(row, col)\<close> have pairwise
  distinct rows and pairwise distinct columns, every pair indexes an existing object and
  a detection of the cycle, and the Euclidean distance between the object's centroid
  and the detection's centroid is at most \<open>max_distance\<close>.
\<close>

theorem assignment_one_to_one:
  assumes "tracker_ok t" and "detections \<noteq> []" and "objects t \<noteq> []"
    and "in_range t detections"
  shows "\<exists>t' ms. update_trace t detections = Inr (t', ms) \<and> update t detections = Inr t' \<and>
           distinct (map fst ms) \<and> distinct (map snd ms) \<and>
           (\<forall>rc \<in> set ms.
              fst rc < length (objects t) \<and> snd rc < length detections \<and>
              sqrt (real_of_int (dist2 (centroid (snd (objects t ! fst rc)))
                                       (centroid_of (bbox (detections ! snd rc)))))
                \<le> real_of_int (max_distance t))"
proof -
  from assign_branch [OF assms(1-3)] obtain t' ms where
    upd: "update_trace t detections = Inr (t', ms)"
    and d: "distinct (map fst ms)" "distinct (map snd ms)"
    and m: "\<And>rc. rc \<in> set ms \<Longrightarrow>
              fst rc < length (objects t) \<and> snd rc < length detections \<and>
              \<not> exceeds (dist2 (centroid (snd (objects t ! fst rc)))
                            (centroid_of (bbox (detections ! snd rc)))) (max_distance t)"
    by blast
  from upd have u: "update t detections = Inr t'"
    by (simp add: update_def)
  have "fst rc < length (objects t) \<and> snd rc < length detections \<and>
        sqrt (real_of_int (dist2 (centroid (snd (objects t ! fst rc)))
                                 (centroid_of (bbox (detections ! snd rc)))))
          \<le> real_of_int (max_distance t)"
    if "rc \<in> set ms" for rc
    using m [OF that] exceeds_iff_sqrt [OF dist2_nonneg] by (simp add: not_less)
  with upd u d show ?thesis by blast
qed

text \<open>C6 at the two-object tracker and two nearby detections.\<close>

theorem assignment_one_to_one_witness:
  "tracker_ok demo_tracker \<and> objects demo_tracker \<noteq> [] \<and>
   in_range demo_tracker
     [demo_detection (40, 40, 10, 10) (Some []),
      demo_detection (41, 41, 10, 10) (Some ''ZZ9999'')] \<and>
   (\<exists>t'. update_trace demo_tracker
            [demo_detection (40, 40, 10, 10) (Some []),
             demo_detection (41, 41, 10, 10) (Some ''ZZ9999'')] = Inr (t', [(1, 1), (0, 0)])) \<and>
   sqrt (real_of_int (dist2 (50, 50) (46, 46))) \<le> 100 \<and>
   sqrt (real_of_int (dist2 (0, 0) (45, 45))) \<le> 100"
proof -
  let ?dets = "[demo_detection (40, 40, 10, 10) (Some []),
                demo_detection (41, 41, 10, 10) (Some ''ZZ9999'')]"
  have ne: "?dets \<noteq> []" by simp
  have objs: "objects demo_tracker \<noteq> []" by (simp add: demo_tracker_def)
  have rng: "in_range demo_tracker ?dets"
    by (simp add: in_range_def in_frame_def bbox_in_frame_def demo_tracker_def demo_object_def
          demo_detection_def)
  from assignment_one_to_one [OF demo_tracker_ok ne objs rng] obtain t' ms where
    upd: "update_trace demo_tracker ?dets = Inr (t', ms)"
    and m: "\<forall>rc \<in> set ms.
              fst rc < length (objects demo_tracker) \<and> snd rc < length ?dets \<and>
              sqrt (real_of_int (dist2 (centroid (snd (objects demo_tracker ! fst rc)))
                                       (centroid_of (bbox (?dets ! snd rc)))))
                \<le> real_of_int (max_distance demo_tracker)"
    by blast
  from upd have ms: "ms = [(1, 1), (0, 0)]"
    by (simp add: demo_near)
  from m have "sqrt (real_of_int (dist2 (50, 50) (46, 46))) \<le> 100"
    and "sqrt (real_of_int (dist2 (0, 0) (45, 45))) \<le> 100"
    unfolding ms
    by (simp_all add: demo_tracker_def demo_object_def demo_detection_def centroid_of_def
          int_half_sum_def)
  with upd ms objs rng demo_tracker_ok show ?thesis by blast
qed

text \<open>
  Claim C8. In every update cycle, an object that is matched to a detection gets the
  detection's text as its plate text when that text is not empty and keeps its plate
  text when the text is empty or absent; in both cases its centroid is the detection's
  centroid, its history is the old history followed by that centroid, cut to its last
  ten entries, and its disappearance counter is 0.
\<close>

theorem matched_identifier_sticky:
  assumes "tracker_ok t"
  shows "\<exists>t' ms. update_trace t detections = Inr (t', ms) \<and> update t detections = Inr t' \<and>
     (\<forall>rc \<in> set ms.
        fst rc < length (objects t) \<and> snd rc < length detections \<and>
        (\<exists>new. map_of (objects t') (fst (objects t ! fst rc)) = Some new \<and>
            obj_plate_text new =
              (case det_text (detections ! snd rc) of
                 None \<Rightarrow> obj_plate_text (snd (objects t ! fst rc))
               | Some txt \<Rightarrow>
                   if txt = [] then obj_plate_text (snd (objects t ! fst rc)) else txt) \<and>
            centroid new = centroid_of (bbox (detections ! snd rc)) \<and>
            track_history new =
              drop (length (track_history (snd (objects t ! fst rc))) + 1 - 10)
                (track_history (snd (objects t ! fst rc)) @
                 [centroid_of (bbox (detections ! snd rc))]) \<and>
            confidence_history new = confidence_history (snd (objects t ! fst rc))) \<and>
        map_of (disappeared t') (fst (objects t ! fst rc)) = Some 0)"
proof (cases "detections \<noteq> [] \<and> objects t \<noteq> []")
  case False
  from update_total [OF assms, of detections] obtain t' ms where
    upd: "update_trace t detections = Inr (t', ms)" and u: "update t detections = Inr t'"
    by blast
  from False upd have "ms = []"
    by (auto simp: update_trace_def Let_def split: sum.splits if_splits)
  with upd u show ?thesis by auto
next
  case True
  then have dets: "detections \<noteq> []" and objs: "objects t \<noteq> []" by simp_all
  from assign_branch [OF assms dets objs] obtain t' ms where
    upd: "update_trace t detections = Inr (t', ms)"
    and m: "\<And>rc. rc \<in> set ms \<Longrightarrow>
              fst rc < length (objects t) \<and> snd rc < length detections \<and>
              map_of (objects t') (fst (objects t ! fst rc)) =
                Some (matched_object (snd (objects t ! fst rc))
                        (centroid_of (bbox (detections ! snd rc)))
                        (plate_texts detections ! snd rc)) \<and>
              map_of (disappeared t') (fst (objects t ! fst rc)) = Some 0"
    by blast
  from upd have u: "update t detections = Inr t'"
    by (simp add: update_def)
  have "fst rc < length (objects t) \<and> snd rc < length detections \<and>
        (\<exists>new. map_of (objects t') (fst (objects t ! fst rc)) = Some new \<and>
            obj_plate_text new =
              (case det_text (detections ! snd rc) of
                 None \<Rightarrow> obj_plate_text (snd (objects t ! fst rc))
               | Some txt \<Rightarrow>
                   if txt = [] then obj_plate_text (snd (objects t ! fst rc)) else txt) \<and>
            centroid new = centroid_of (bbox (detections ! snd rc)) \<and>
            track_history new =
              drop (length (track_history (snd (objects t ! fst rc))) + 1 - 10)
                (track_history (snd (objects t ! fst rc)) @
                 [centroid_of (bbox (detections ! snd rc))]) \<and>
            confidence_history new = confidence_history (snd (objects t ! fst rc))) \<and>
        map_of (disappeared t') (fst (objects t ! fst rc)) = Some 0"
    if "rc \<in> set ms" for rc
    using m [OF that]
    by (simp add: matched_object_fields deque_append_def Let_def plate_texts_def
          split: option.splits)
  with upd u show ?thesis by blast
qed

text \<open>
  C8 at the two-object tracker: object 0 is matched by a detection with empty text and
  keeps \<open>AB1234\<close>, object 1 is matched by one reading \<open>ZZ9999\<close> and takes it, and each
  history gains the new centroid. At the tracker with a full history, a match by a
  detection without text appends the new centroid and drops the oldest one.
\<close>

theorem matched_identifier_sticky_witness:
  "tracker_ok demo_tracker \<and> tracker_ok history_tracker \<and>
   (\<exists>t' a b. update demo_tracker
            [demo_detection (40, 40, 10, 10) (Some []),
             demo_detection (41, 41, 10, 10) (Some ''ZZ9999'')] = Inr t' \<and>
      map_of (objects t') 0 = Some a \<and> obj_plate_text a = ''AB1234'' \<and> centroid a = (45, 45) \<and>
      track_history a = [(45, 45)] \<and>
      map_of (objects t') 1 = Some b \<and> obj_plate_text b = ''ZZ9999'' \<and> centroid b = (46, 46) \<and>
      track_history b = [(46, 46)] \<and>
      map_of (disappeared t') 0 = Some 0) \<and>
   (\<exists>t' a. update history_tracker [demo_detection (6, 6, 10, 10) None] = Inr t' \<and>
      map_of (objects t') 0 = Some a \<and> obj_plate_text a = ''AB1234'' \<and> centroid a = (11, 11) \<and>
      track_history a =
        [(2, 2), (3, 3), (4, 4), (5, 5), (6, 6), (7, 7), (8, 8), (9, 9), (10, 10), (11, 11)] \<and>
      map_of (disappeared t') 0 = Some 0)"
proof -
  let ?dets = "[demo_detection (40, 40, 10, 10) (Some []),
                demo_detection (41, 41, 10, 10) (Some ''ZZ9999'')]"
  from matched_identifier_sticky [OF demo_tracker_ok, of ?dets] obtain t' ms where
    upd: "update_trace demo_tracker ?dets = Inr (t', ms)"
    and u: "update demo_tracker ?dets = Inr t'"
    and m: "\<forall>rc \<in> set ms.
        fst rc < length (objects demo_tracker) \<and> snd rc < length ?dets \<and>
        (\<exists>new. map_of (objects t') (fst (objects demo_tracker ! fst rc)) = Some new \<and>
            obj_plate_text new =
              (case det_text (?dets ! snd rc) of
                 None \<Rightarrow> obj_plate_text (snd (objects demo_tracker ! fst rc))
               | Some txt \<Rightarrow>
                   if txt = [] then obj_plate_text (snd (objects demo_tracker ! fst rc)) else txt) \<and>
            centroid new = centroid_of (bbox (?dets ! snd rc)) \<and>
            track_history new =
              drop (length (track_history (snd (objects demo_tracker ! fst rc))) + 1 - 10)
                (track_history (snd (objects demo_tracker ! fst rc)) @
                 [centroid_of (bbox (?dets ! snd rc))]) \<and>
            confidence_history new = confidence_history (snd (objects demo_tracker ! fst rc))) \<and>
        map_of (disappeared t') (fst (objects demo_tracker ! fst rc)) = Some 0"
    by blast
  from upd have ms: "ms = [(1, 1), (0, 0)]"
    by (simp add: demo_near)
  from m obtain a where a: "map_of (objects t') 0 = Some a" "obj_plate_text a = ''AB1234''"
      "centroid a = (45, 45)" "track_history a = [(45, 45)]"
      "map_of (disappeared t') 0 = Some 0"
    unfolding ms
    by (auto simp: demo_tracker_def demo_object_def demo_detection_def centroid_of_def
          int_half_sum_def)
  from m obtain b where b: "map_of (objects t') 1 = Some b" "obj_plate_text b = ''ZZ9999''"
      "centroid b = (46, 46)" "track_history b = [(46, 46)]"
    unfolding ms
    by (auto simp: demo_tracker_def demo_object_def demo_detection_def centroid_of_def
          int_half_sum_def)
  let ?det = "[demo_detection (6, 6, 10, 10) None]"
  from matched_identifier_sticky [OF history_tracker_ok, of ?det] obtain h' hs where
    hupd: "update_trace history_tracker ?det = Inr (h', hs)"
    and hu: "update history_tracker ?det = Inr h'"
    and hm: "\<forall>rc \<in> set hs.
        fst rc < length (objects history_tracker) \<and> snd rc < length ?det \<and>
        (\<exists>new. map_of (objects h') (fst (objects history_tracker ! fst rc)) = Some new \<and>
            obj_plate_text new =
              (case det_text (?det ! snd rc) of
                 None \<Rightarrow> obj_plate_text (snd (objects history_tracker ! fst rc))
               | Some txt \<Rightarrow>
                   if txt = [] then obj_plate_text (snd (objects history_tracker ! fst rc))
                   else txt) \<and>
            centroid new = centroid_of (bbox (?det ! snd rc)) \<and>
            track_history new =
              drop (length (track_history (snd (objects history_tracker ! fst rc))) + 1 - 10)
                (track_history (snd (objects history_tracker ! fst rc)) @
                 [centroid_of (bbox (?det ! snd rc))]) \<and>
            confidence_history new =
              confidence_history (snd (objects history_tracker ! fst rc))) \<and>
        map_of (disappeared h') (fst (objects history_tracker ! fst rc)) = Some 0"
    by blast
  from hupd history_near have hs: "hs = [(0, 0)]"
    by auto
  from hm obtain c where c: "map_of (objects h') 0 = Some c" "obj_plate_text c = ''AB1234''"
      "centroid c = (11, 11)"
      "track_history c =
        [(2, 2), (3, 3), (4, 4), (5, 5), (6, 6), (7, 7), (8, 8), (9, 9), (10, 10), (11, 11)]"
      "map_of (disappeared h') 0 = Some 0"
    unfolding hs
    by (auto simp: history_tracker_def demo_detection_def centroid_of_def int_half_sum_def)
  from u a b have first: "\<exists>t' a b. update demo_tracker ?dets = Inr t' \<and>
      map_of (objects t') 0 = Some a \<and> obj_plate_text a = ''AB1234'' \<and> centroid a = (45, 45) \<and>
      track_history a = [(45, 45)] \<and>
      map_of (objects t') 1 = Some b \<and> obj_plate_text b = ''ZZ9999'' \<and> centroid b = (46, 46) \<and>
      track_history b = [(46, 46)] \<and>
      map_of (disappeared t') 0 = Some 0"
    by blast
  from hu c have second: "\<exists>t' a. update history_tracker ?det = Inr t' \<and>
      map_of (objects t') 0 = Some a \<and> obj_plate_text a = ''AB1234'' \<and> centroid a = (11, 11) \<and>
      track_history a =
        [(2, 2), (3, 3), (4, 4), (5, 5), (6, 6), (7, 7), (8, 8), (9, 9), (10, 10), (11, 11)] \<and>
      map_of (disappeared t') 0 = Some 0"
    by blast
  from first second demo_tracker_ok history_tracker_ok show ?thesis
    by (intro conjI)
qed

end
